theory Spec2Isabelle
  imports Complex_Main "HOL-Library.Multiset"
begin

section \<open>The timeline engine of the lyrics viewer (scripts/audio-sync.js)\<close>

text \<open>
  The class \<^verbatim>\<open>AudioSyncEngine\<close> is embedded method by method. Mutation of
  \<^verbatim>\<open>this\<close> is explicit state passing over the record \<open>engine\<close>; a JavaScript
  \<^verbatim>\<open>TypeError\<close> is the value \<open>Inl TypeError\<close>. Times are JavaScript numbers that
  the engine only compares and subtracts; they are modelled as rationals (every finite
  double is one, and the sign of \<^verbatim>\<open>a.time - b.time\<close> is the order of the two
  times). \<^verbatim>\<open>NaN\<close> times (units without a numeric \<^verbatim>\<open>time\<close>) are outside the
  model. Calls of \<^verbatim>\<open>console.log\<close> are left out.
\<close>

subsection \<open>Song data and the flattened sequence\<close>

record charData =
  char :: string
  pinyin :: "string option"
  meaning :: "string option"
  time :: rat

record character = charData +
  verseIdx :: nat
  charIdx :: nat
  globalIdx :: nat

record verse =
  verse_characters :: "charData list"
  translation :: string

record songData =
  verses :: "verse list"

text \<open>
  The inner \<^verbatim>\<open>forEach\<close> of \<^verbatim>\<open>flattenCharacters\<close>: every unit of one verse is
  pushed onto \<open>chars\<close> with its verse index, its index in the verse and
  \<^verbatim>\<open>globalIdx: chars.length\<close>, the length at the moment of the push.
\<close>

fun push_characters ::
  "nat \<Rightarrow> charData list \<Rightarrow> nat \<Rightarrow> character list \<Rightarrow> character list" where
  "push_characters vIdx [] cIdx chars = chars"
| "push_characters vIdx (cd # cds) cIdx chars =
     push_characters vIdx cds (cIdx + 1)
       (chars @ [\<lparr>char = char cd, pinyin = pinyin cd, meaning = meaning cd, time = time cd,
                  verseIdx = vIdx, charIdx = cIdx, globalIdx = length chars\<rparr>])"

text \<open>The outer \<^verbatim>\<open>forEach\<close> over the verses.\<close>

fun push_verses :: "verse list \<Rightarrow> nat \<Rightarrow> character list \<Rightarrow> character list" where
  "push_verses [] vIdx chars = chars"
| "push_verses (v # vs) vIdx chars =
     push_verses vs (vIdx + 1) (push_characters vIdx (verse_characters v) 0 chars)"

text \<open>
  \<^verbatim>\<open>chars.sort((a, b) => a.time - b.time)\<close>: the sort of the language
  (\<^verbatim>\<open>Array.prototype.sort\<close>, stable since ECMAScript 2019) is the stable insertion
  sort \<open>sort_key\<close> on the key \<open>time\<close>.
\<close>

definition flattenCharacters :: "songData \<Rightarrow> character list" where
  "flattenCharacters sd = sort_key time (push_verses (verses sd) 0 [])"

subsection \<open>Engine state, notifications and handlers\<close>

datatype error = TypeError

text \<open>A callback is a function object; only its identity matters to the engine.\<close>

type_synonym callback = nat

datatype payload =
    CharacterData character
  | VerseData nat character
  | TimeData rat rat

text \<open>
  \<open>handlers\<close> is the object with the own properties \<^verbatim>\<open>'character-change'\<close>,
  \<^verbatim>\<open>'verse-change'\<close> and \<^verbatim>\<open>'time-update'\<close>, each a \<^verbatim>\<open>Set\<close> of callbacks: a
  map from property names to the members of the set in insertion order (the order in
  which \<^verbatim>\<open>forEach\<close> visits them). \<open>emitted\<close> records every call of
  \<^verbatim>\<open>emit\<close> that returns (the notifications), \<open>delivered\<close> every callback
  invocation, both oldest first. \<open>syncLoop\<close> is the pending frame request, \<open>None\<close>
  for \<^verbatim>\<open>null\<close>.
\<close>

record engine =
  characters :: "character list"
  currentIndex :: nat
  isRunning :: bool
  syncLoop :: "nat option"
  handlers :: "string \<rightharpoonup> callback list"
  emitted :: "(string \<times> payload) list"
  delivered :: "(callback \<times> payload) list"

text \<open>
  What \<^verbatim>\<open>update\<close> reads from its collaborators at one tick: \<^verbatim>\<open>audio.currentTime\<close>,
  \<^verbatim>\<open>audio.duration\<close> (\<open>None\<close> for \<^verbatim>\<open>NaN\<close>), \<^verbatim>\<open>stateManager.state.duration\<close>
  and the handle that \<^verbatim>\<open>requestAnimationFrame\<close> returns.
\<close>

record tick =
  audio_currentTime :: rat
  audio_duration :: "rat option"
  state_duration :: "rat option"
  frame_handle :: nat

definition AudioSyncEngine :: "songData \<Rightarrow> engine" where
  "AudioSyncEngine sd =
     \<lparr>characters = flattenCharacters sd, currentIndex = 0, isRunning = False,
      syncLoop = None,
      handlers = [''character-change'' \<mapsto> [], ''verse-change'' \<mapsto> [], ''time-update'' \<mapsto> []],
      emitted = [], delivered = []\<rparr>"

text \<open>
  \<^verbatim>\<open>this.handlers[event]\<close> is a property read on a plain object: an own property
  gives its \<^verbatim>\<open>Set\<close>; otherwise the prototype chain is searched, and the names below
  are the properties of \<^verbatim>\<open>Object.prototype\<close> (functions, and the prototype object
  itself for \<^verbatim>\<open>__proto__\<close>), all truthy and none with a method \<^verbatim>\<open>add\<close>,
  \<^verbatim>\<open>delete\<close> or \<^verbatim>\<open>forEach\<close>; any other name reads \<^verbatim>\<open>undefined\<close>.
\<close>

datatype handler_value = Undefined | SetObject "callback list" | Inherited

definition object_prototype_keys :: "string list" where
  "object_prototype_keys =
     [''constructor'', ''__proto__'', ''hasOwnProperty'', ''isPrototypeOf'',
      ''propertyIsEnumerable'', ''toLocaleString'', ''toString'', ''valueOf'',
      ''__defineGetter__'', ''__defineSetter__'', ''__lookupGetter__'', ''__lookupSetter__'']"

definition handlers_get :: "(string \<rightharpoonup> callback list) \<Rightarrow> string \<Rightarrow> handler_value" where
  "handlers_get h event =
     (case h event of
        Some s \<Rightarrow> SetObject s
      | None \<Rightarrow> if event \<in> set object_prototype_keys then Inherited else Undefined)"

text \<open>\<^verbatim>\<open>Set.prototype.add\<close> and \<^verbatim>\<open>Set.prototype.delete\<close> on the insertion-ordered members.\<close>

definition set_add :: "callback list \<Rightarrow> callback \<Rightarrow> callback list" where
  "set_add s callback = (if callback \<in> set s then s else s @ [callback])"

definition set_delete :: "callback list \<Rightarrow> callback \<Rightarrow> callback list" where
  "set_delete s callback = removeAll callback s"

definition on :: "engine \<Rightarrow> string \<Rightarrow> callback \<Rightarrow> error + engine" where
  "on e event callback =
     (case handlers_get (handlers e) event of
        Undefined \<Rightarrow> Inr e
      | SetObject s \<Rightarrow> Inr (e\<lparr>handlers := (handlers e)(event \<mapsto> set_add s callback)\<rparr>)
      | Inherited \<Rightarrow> Inl TypeError)"

definition off :: "engine \<Rightarrow> string \<Rightarrow> callback \<Rightarrow> error + engine" where
  "off e event callback =
     (case handlers_get (handlers e) event of
        Undefined \<Rightarrow> Inr e
      | SetObject s \<Rightarrow> Inr (e\<lparr>handlers := (handlers e)(event \<mapsto> set_delete s callback)\<rparr>)
      | Inherited \<Rightarrow> Inl TypeError)"

definition emit :: "engine \<Rightarrow> string \<Rightarrow> payload \<Rightarrow> error + engine" where
  "emit e event data =
     (case handlers_get (handlers e) event of
        Undefined \<Rightarrow> Inr (e\<lparr>emitted := emitted e @ [(event, data)]\<rparr>)
      | SetObject s \<Rightarrow>
          Inr (e\<lparr>emitted := emitted e @ [(event, data)],
                 delivered := delivered e @ map (\<lambda>callback. (callback, data)) s\<rparr>)
      | Inherited \<Rightarrow> Inl TypeError)"

text \<open>Sequencing of statements that may throw: the first error ends the method.\<close>

definition and_then :: "error + 'a \<Rightarrow> ('a \<Rightarrow> error + 'b) \<Rightarrow> error + 'b" where
  "and_then m f = (case m of Inl err \<Rightarrow> Inl err | Inr a \<Rightarrow> f a)"

lemma and_then_simps [simp]:
  "and_then (Inl err) f = Inl err"
  "and_then (Inr a) f = f a"
  by (simp_all add: and_then_def)

lemma and_then_cong [fundef_cong]:
  "m = m' \<Longrightarrow> (\<And>a. m' = Inr a \<Longrightarrow> f a = f' a) \<Longrightarrow> and_then m f = and_then m' f'"
  by (cases m') (simp_all)

lemma emit_Inr_fields:
  "emit e event data = Inr e' \<Longrightarrow>
     characters e' = characters e \<and> currentIndex e' = currentIndex e"
  by (auto simp: emit_def split: handler_value.splits)

subsection \<open>The update loop\<close>

text \<open>
  The \<^verbatim>\<open>while\<close> loop of \<^verbatim>\<open>update\<close>. The loop test compares with
  \<^verbatim>\<open>length - 1\<close>, which is \<open>-1\<close> on the empty sequence, hence the integers.
  \<^verbatim>\<open>prevChar\<close> is read at \<^verbatim>\<open>currentIndex - 1\<close> after the increment, an index in
  range, so \<^verbatim>\<open>!prevChar\<close> is false and only the comparison of the verse indices
  decides.
\<close>

function advance :: "engine \<Rightarrow> rat \<Rightarrow> error + engine" where
  "advance e currentTime =
     (if int (currentIndex e) < int (length (characters e)) - 1 then
        (let nextChar = characters e ! (currentIndex e + 1) in
         if currentTime \<ge> time nextChar then
           (let e1 = e\<lparr>currentIndex := currentIndex e + 1\<rparr>;
                currentChar = characters e1 ! currentIndex e1;
                prevChar = characters e1 ! (currentIndex e1 - 1)
            in and_then
                 (if verseIdx prevChar \<noteq> verseIdx currentChar
                  then emit e1 ''verse-change'' (VerseData (verseIdx currentChar) currentChar)
                  else Inr e1)
                 (\<lambda>e2. and_then (emit e2 ''character-change'' (CharacterData currentChar))
                    (\<lambda>e3. advance e3 currentTime)))
         else Inr e)
      else Inr e)"
  by pat_completeness auto
termination
proof (relation "measure (\<lambda>(e, t). length (characters e) - currentIndex e)")
  show "wf (measure (\<lambda>(e, t). length (characters e) - currentIndex e))"
    by simp
next
  fix e :: engine and currentTime :: rat and nextChar e1 currentChar prevChar e2 e3
  assume c: "int (currentIndex e) < int (length (characters e)) - 1"
    and e1: "e1 = e\<lparr>currentIndex := currentIndex e + 1\<rparr>"
    and s1: "(if verseIdx prevChar \<noteq> verseIdx currentChar
              then emit e1 ''verse-change'' (VerseData (verseIdx currentChar) currentChar)
              else Inr e1) = Inr e2"
    and s2: "emit e2 ''character-change'' (CharacterData currentChar) = Inr e3"
  from s1 have "characters e2 = characters e1 \<and> currentIndex e2 = currentIndex e1"
    by (auto split: if_splits dest: emit_Inr_fields)
  with s2 have "characters e3 = characters e1 \<and> currentIndex e3 = currentIndex e1"
    by (auto dest: emit_Inr_fields)
  with c e1 show "((e3, currentTime), (e, currentTime))
      \<in> measure (\<lambda>(e, t). length (characters e) - currentIndex e)"
    by simp
qed

declare advance.simps [simp del]

text \<open>\<^verbatim>\<open>audio.duration || stateManager.state.duration || 0\<close>: zero and \<^verbatim>\<open>NaN\<close> are falsy.\<close>

definition guarded_duration :: "rat option \<Rightarrow> rat option \<Rightarrow> rat" where
  "guarded_duration a s =
     (case a of
        Some d \<Rightarrow> if d \<noteq> 0 then d else (case s of Some d' \<Rightarrow> d' | None \<Rightarrow> 0)
      | None \<Rightarrow> (case s of Some d' \<Rightarrow> d' | None \<Rightarrow> 0))"

text \<open>
  One run of \<^verbatim>\<open>update\<close>. The frame it requests at its end runs \<^verbatim>\<open>update\<close> again
  at a later tick; the host's scheduler is the caller that applies \<open>update\<close> to the
  next tick.
\<close>

definition update :: "engine \<Rightarrow> tick \<Rightarrow> error + engine" where
  "update e tk =
     (if \<not> isRunning e then Inr e
      else
        (let currentTime = audio_currentTime tk;
             duration = guarded_duration (audio_duration tk) (state_duration tk)
         in and_then (emit e ''time-update'' (TimeData currentTime duration))
              (\<lambda>e1. and_then (advance e1 currentTime)
                 (\<lambda>e2. Inr (e2\<lparr>syncLoop := Some (frame_handle tk)\<rparr>)))))"

subsection \<open>Start, stop, seek and reset\<close>

text \<open>
  \<^verbatim>\<open>firstChar.verseIdx\<close> throws when \<^verbatim>\<open>characters[currentIndex]\<close> is
  \<^verbatim>\<open>undefined\<close>, that is when the cursor is out of range.
\<close>

definition startSync :: "engine \<Rightarrow> tick \<Rightarrow> error + engine" where
  "startSync e tk =
     (if isRunning e then Inr e
      else
        (let e1 = e\<lparr>isRunning := True\<rparr> in
         and_then
           (if length (characters e1) > 0 then
              (if currentIndex e1 < length (characters e1) then
                 (let firstChar = characters e1 ! currentIndex e1 in
                  and_then
                    (emit e1 ''verse-change'' (VerseData (verseIdx firstChar) firstChar))
                    (\<lambda>e2. emit e2 ''character-change'' (CharacterData firstChar)))
               else Inl TypeError)
            else Inr e1)
           (\<lambda>e3. update e3 tk)))"

text \<open>\<^verbatim>\<open>if (this.syncLoop)\<close>: \<^verbatim>\<open>null\<close> and the handle \<open>0\<close> are falsy.\<close>

definition stopSync :: "engine \<Rightarrow> engine" where
  "stopSync e =
     (case syncLoop e of
        Some h \<Rightarrow> if h \<noteq> 0 then e\<lparr>isRunning := False, syncLoop := None\<rparr>
                  else e\<lparr>isRunning := False\<rparr>
      | None \<Rightarrow> e\<lparr>isRunning := False\<rparr>)"

text \<open>The \<^verbatim>\<open>for\<close> loop of \<^verbatim>\<open>seekTo\<close>, with its \<^verbatim>\<open>break\<close>.\<close>

function seek_scan :: "character list \<Rightarrow> rat \<Rightarrow> nat \<Rightarrow> nat \<Rightarrow> nat" where
  "seek_scan cs t i newIndex =
     (if i < length cs then
        (if time (cs ! i) \<le> t then seek_scan cs t (i + 1) i else newIndex)
      else newIndex)"
  by pat_completeness auto
termination
  by (relation "measure (\<lambda>(cs, t, i, newIndex). length cs - i)") auto

declare seek_scan.simps [simp del]

text \<open>\<^verbatim>\<open>if (currentChar)\<close>: the unit at the new cursor exists iff the index is in range.\<close>

definition seekTo :: "engine \<Rightarrow> rat \<Rightarrow> error + engine" where
  "seekTo e t =
     (let newIndex = seek_scan (characters e) t 0 0;
          e1 = e\<lparr>currentIndex := newIndex\<rparr>
      in if currentIndex e1 < length (characters e1) then
           (let currentChar = characters e1 ! currentIndex e1 in
            and_then
              (emit e1 ''verse-change'' (VerseData (verseIdx currentChar) currentChar))
              (\<lambda>e2. emit e2 ''character-change'' (CharacterData currentChar)))
         else Inr e1)"

definition reset :: "engine \<Rightarrow> engine" where
  "reset e = stopSync (e\<lparr>currentIndex := 0\<rparr>)"

text \<open>The host's frame loop: \<^verbatim>\<open>update\<close> at each tick of a list, oldest first.\<close>

fun updates :: "engine \<Rightarrow> tick list \<Rightarrow> error + engine" where
  "updates e [] = Inr e"
| "updates e (tk # tks) = and_then (update e tk) (\<lambda>e1. updates e1 tks)"

text \<open>
  The states an engine can be in: what the constructor returns, and what a method of
  the class returns when called on such a state. A call that throws adds no state:
  \<^verbatim>\<open>on\<close>, \<^verbatim>\<open>off\<close> and \<^verbatim>\<open>emit\<close> throw before they change anything, and
  \<^verbatim>\<open>startSync\<close> throws only with the cursor out of range. Callbacks are taken to
  return without calling into the engine.
\<close>

inductive reachable :: "songData \<Rightarrow> engine \<Rightarrow> bool" for sd :: songData where
  constructed: "reachable sd (AudioSyncEngine sd)"
| started: "reachable sd e \<Longrightarrow> startSync e tk = Inr e' \<Longrightarrow> reachable sd e'"
| stopped: "reachable sd e \<Longrightarrow> reachable sd (stopSync e)"
| ticked: "reachable sd e \<Longrightarrow> update e tk = Inr e' \<Longrightarrow> reachable sd e'"
| sought: "reachable sd e \<Longrightarrow> seekTo e t = Inr e' \<Longrightarrow> reachable sd e'"
| was_reset: "reachable sd e \<Longrightarrow> reachable sd (reset e)"
| registered: "reachable sd e \<Longrightarrow> on e event callback = Inr e' \<Longrightarrow> reachable sd e'"
| unregistered: "reachable sd e \<Longrightarrow> off e event callback = Inr e' \<Longrightarrow> reachable sd e'"
| emitted_to: "reachable sd e \<Longrightarrow> emit e event data = Inr e' \<Longrightarrow> reachable sd e'"

section \<open>What the engine's loops compute\<close>

subsection \<open>Notifications of a run\<close>

text \<open>
  Notation of the proofs, not of the program: \<open>notified e ns\<close> is \<open>e\<close> after the
  notifications \<open>ns\<close> were emitted in this order (each delivered to the callbacks
  registered under its name), \<open>entered cs j\<close> are the notifications of one pass of
  the update loop that moves the cursor onto index \<open>j\<close>, and
  \<open>advance_notifications cs i k\<close> those of the passes from cursor \<open>i\<close> to cursor
  \<open>k\<close>. \<open>scan_target cs i t\<close> counts the units after index \<open>i\<close> that are due at
  time \<open>t\<close>, up to the first one that is not.
\<close>

definition deliveries ::
  "(string \<rightharpoonup> callback list) \<Rightarrow> (string \<times> payload) list \<Rightarrow> (callback \<times> payload) list" where
  "deliveries h ns =
     concat (map (\<lambda>(event, data).
        case h event of Some s \<Rightarrow> map (\<lambda>callback. (callback, data)) s | None \<Rightarrow> []) ns)"

definition notified :: "engine \<Rightarrow> (string \<times> payload) list \<Rightarrow> engine" where
  "notified e ns =
     e\<lparr>emitted := emitted e @ ns, delivered := delivered e @ deliveries (handlers e) ns\<rparr>"

definition entered :: "character list \<Rightarrow> nat \<Rightarrow> (string \<times> payload) list" where
  "entered cs j =
     (if verseIdx (cs ! (j - 1)) \<noteq> verseIdx (cs ! j)
      then [(''verse-change'', VerseData (verseIdx (cs ! j)) (cs ! j))] else [])
     @ [(''character-change'', CharacterData (cs ! j))]"

definition advance_notifications :: "character list \<Rightarrow> nat \<Rightarrow> nat \<Rightarrow> (string \<times> payload) list" where
  "advance_notifications cs i k = concat (map (entered cs) [i + 1 ..< k + 1])"

definition scan_target :: "character list \<Rightarrow> nat \<Rightarrow> rat \<Rightarrow> nat" where
  "scan_target cs i t = i + length (takeWhile (\<lambda>c. time c \<le> t) (drop (i + 1) cs))"

definition document_times :: "verse list \<Rightarrow> rat list" where
  "document_times vs = concat (map (\<lambda>v. map time (verse_characters v)) vs)"

text \<open>
  \<open>handlers_ok h\<close>: the own properties of \<open>h\<close> are the three event kinds, and no set
  holds a callback twice (a \<^verbatim>\<open>Set\<close> cannot).
\<close>

definition handlers_ok :: "(string \<rightharpoonup> callback list) \<Rightarrow> bool" where
  "handlers_ok h \<longleftrightarrow>
     dom h = {''character-change'', ''verse-change'', ''time-update''} \<and>
     (\<forall>s \<in> ran h. distinct s)"

lemma deliveries_Nil [simp]: "deliveries h [] = []"
  by (simp add: deliveries_def)

lemma deliveries_append [simp]: "deliveries h (xs @ ys) = deliveries h xs @ deliveries h ys"
  by (simp add: deliveries_def)

lemma notified_Nil [simp]: "notified e [] = e"
  by (simp add: notified_def)

lemma notified_notified [simp]: "notified (notified e xs) ys = notified e (xs @ ys)"
  by (simp add: notified_def)

lemma notified_fields [simp]:
  "characters (notified e ns) = characters e"
  "currentIndex (notified e ns) = currentIndex e"
  "isRunning (notified e ns) = isRunning e"
  "syncLoop (notified e ns) = syncLoop e"
  "handlers (notified e ns) = handlers e"
  "emitted (notified e ns) = emitted e @ ns"
  "delivered (notified e ns) = delivered e @ deliveries (handlers e) ns"
  by (simp_all add: notified_def)

lemma notified_currentIndex_update [simp]:
  "notified (e\<lparr>currentIndex := k\<rparr>) ns = (notified e ns)\<lparr>currentIndex := k\<rparr>"
  by (simp add: notified_def)

text \<open>\<^verbatim>\<open>startSync\<close> by cases, and what every run of \<^verbatim>\<open>update\<close> returns.\<close>

lemma notified_isRunning_update [simp]:
  "notified (e\<lparr>isRunning := b\<rparr>) ns = (notified e ns)\<lparr>isRunning := b\<rparr>"
  by (simp add: notified_def)

lemma emit_known:
  "event \<notin> set object_prototype_keys \<Longrightarrow>
     emit e event data = Inr (notified e [(event, data)])"
  by (simp add: emit_def handlers_get_def notified_def deliveries_def split: option.splits)

lemma known_events [simp]:
  "''character-change'' \<notin> set object_prototype_keys"
  "''verse-change'' \<notin> set object_prototype_keys"
  "''time-update'' \<notin> set object_prototype_keys"
  by (simp_all add: object_prototype_keys_def)

subsection \<open>The update loop\<close>

lemma scan_target_stay:
  "\<not> int i < int (length cs) - 1 \<Longrightarrow> scan_target cs i t = i"
  by (simp add: scan_target_def)

lemma scan_target_stop:
  "int i < int (length cs) - 1 \<Longrightarrow> \<not> time (cs ! (i + 1)) \<le> t \<Longrightarrow> scan_target cs i t = i"
  by (simp add: scan_target_def Cons_nth_drop_Suc [symmetric])

lemma scan_target_step:
  "int i < int (length cs) - 1 \<Longrightarrow> time (cs ! (i + 1)) \<le> t \<Longrightarrow>
     scan_target cs i t = scan_target cs (i + 1) t"
  by (simp add: scan_target_def Cons_nth_drop_Suc [symmetric])

lemma scan_target_ge: "i \<le> scan_target cs i t"
  by (simp add: scan_target_def)

text \<open>
  The cursor after the loop of \<^verbatim>\<open>update\<close>: every unit passed was due, and the
  loop stops in front of the first unit that is not.
\<close>

lemma scan_target_due:
  assumes "i < j" and "j \<le> scan_target cs i t"
  shows "time (cs ! j) \<le> t"
proof -
  let ?d = "drop (i + 1) cs"
  let ?tw = "takeWhile (\<lambda>c. time c \<le> t) ?d"
  from assms have idx: "j - (i + 1) < length ?tw"
    by (simp add: scan_target_def)
  then have "?tw ! (j - (i + 1)) \<in> set ?tw" by (rule nth_mem)
  then have "time (?tw ! (j - (i + 1))) \<le> t" by (auto dest: set_takeWhileD)
  then have "time (?d ! (j - (i + 1))) \<le> t" using idx by (simp add: takeWhile_nth)
  moreover have "j - (i + 1) < length ?d"
    using idx length_takeWhile_le [of "\<lambda>c. time c \<le> t" ?d] by simp
  ultimately show ?thesis using assms(1) by simp
qed

lemma scan_target_in_range: "i < length cs \<Longrightarrow> scan_target cs i t < length cs"
  using length_takeWhile_le [of "\<lambda>c. time c \<le> t" "drop (i + 1) cs"]
  by (simp add: scan_target_def)

lemma scan_target_next:
  assumes "scan_target cs i t + 1 < length cs"
  shows "t < time (cs ! (scan_target cs i t + 1))"
proof -
  let ?d = "drop (i + 1) cs"
  let ?tw = "takeWhile (\<lambda>c. time c \<le> t) ?d"
  from assms have "length ?tw < length ?d" by (simp add: scan_target_def)
  then have "\<not> time (?d ! length ?tw) \<le> t" by (rule nth_length_takeWhile)
  moreover have "?d ! length ?tw = cs ! (scan_target cs i t + 1)"
    using assms by (simp add: scan_target_def add.commute add.left_commute)
  ultimately show ?thesis by simp
qed

lemma advance_notifications_same [simp]: "advance_notifications cs i i = []"
  by (simp add: advance_notifications_def)

lemma advance_notifications_step:
  "i < k \<Longrightarrow> advance_notifications cs i k = entered cs (i + 1) @ advance_notifications cs (i + 1) k"
  by (simp add: advance_notifications_def upt_conv_Cons [of "Suc i" "Suc k"] del: upt_Suc)


lemma filter_character_change:
  "filter (\<lambda>n. fst n = ''character-change'') (advance_notifications cs i k)
     = map (\<lambda>j. (''character-change'', CharacterData (cs ! j))) [i + 1 ..< k + 1]"
proof -
  have "filter (\<lambda>n. fst n = ''character-change'') (concat (map (entered cs) js))
          = map (\<lambda>j. (''character-change'', CharacterData (cs ! j))) js" for js
    by (induction js) (simp_all add: entered_def)
  then show ?thesis by (simp only: advance_notifications_def)
qed


lemma advance_eq:
  "advance e t =
     Inr ((notified e
            (advance_notifications (characters e) (currentIndex e)
               (scan_target (characters e) (currentIndex e) t)))
          \<lparr>currentIndex := scan_target (characters e) (currentIndex e) t\<rparr>)"
proof (induction "length (characters e) - currentIndex e" arbitrary: e rule: less_induct)
  case less
  let ?cs = "characters e" and ?i = "currentIndex e"
  show ?case
  proof (cases "int ?i < int (length ?cs) - 1")
    case False
    then show ?thesis
      by (subst advance.simps) (simp add: scan_target_stay)
  next
    case inrange: True
    show ?thesis
    proof (cases "time (?cs ! (?i + 1)) \<le> t")
      case False
      with inrange show ?thesis
        by (subst advance.simps) (simp add: scan_target_stop Let_def)
    next
      case True
      let ?e2 = "notified (e\<lparr>currentIndex := ?i + 1\<rparr>) (entered ?cs (?i + 1))"
      have step: "advance e t = advance ?e2 t"
        using inrange True by (subst advance.simps) (simp add: emit_known entered_def Let_def)
      have "length (characters ?e2) - currentIndex ?e2 < length ?cs - ?i"
        using inrange by simp
      from less [OF this] have
        "advance ?e2 t =
           Inr ((notified ?e2
                  (advance_notifications ?cs (?i + 1) (scan_target ?cs (?i + 1) t)))
                \<lparr>currentIndex := scan_target ?cs (?i + 1) t\<rparr>)"
        by simp
      moreover have "?i < scan_target ?cs ?i t"
        using scan_target_step [OF inrange True] scan_target_ge [of "?i + 1" ?cs t] by simp
      ultimately show ?thesis
        using step scan_target_step [OF inrange True]
        by (simp add: advance_notifications_step)
    qed
  qed
qed

lemma update_eq:
  "update e tk =
     (if \<not> isRunning e then Inr e
      else Inr ((notified e
                  ((''time-update'',
                    TimeData (audio_currentTime tk)
                      (guarded_duration (audio_duration tk) (state_duration tk)))
                   # advance_notifications (characters e) (currentIndex e)
                       (scan_target (characters e) (currentIndex e) (audio_currentTime tk))))
                \<lparr>currentIndex := scan_target (characters e) (currentIndex e) (audio_currentTime tk),
                  syncLoop := Some (frame_handle tk)\<rparr>))"
  by (simp add: update_def emit_known advance_eq Let_def)

lemma update_returns:
  "\<exists>e'. update e tk = Inr e' \<and> characters e' = characters e \<and>
     currentIndex e' = (if isRunning e
        then scan_target (characters e) (currentIndex e) (audio_currentTime tk)
        else currentIndex e)"
  by (simp add: update_eq)

lemma update_cursor_le:
  "update e tk = Inr e' \<Longrightarrow> currentIndex e \<le> currentIndex e'"
  using scan_target_ge [of "currentIndex e" "characters e" "audio_currentTime tk"]
  by (auto simp: update_eq split: if_splits)

lemma updates_cursor_le:
  "\<exists>e'. updates e tks = Inr e' \<and> currentIndex e \<le> currentIndex e'"
proof (induction tks arbitrary: e)
  case Nil
  show ?case by simp
next
  case (Cons tk tks)
  obtain e1 where e1: "update e tk = Inr e1"
    using update_returns [of e tk] by blast
  then have "currentIndex e \<le> currentIndex e1"
    by (rule update_cursor_le)
  moreover obtain e' where "updates e1 tks = Inr e'" and "currentIndex e1 \<le> currentIndex e'"
    using Cons.IH [of e1] by blast
  ultimately show ?case
    using e1 by simp
qed

subsection \<open>Start and stop\<close>

lemma startSync_eq:
  "startSync e tk =
     (if isRunning e then Inr e
      else if characters e = [] then update (e\<lparr>isRunning := True\<rparr>) tk
      else if currentIndex e < length (characters e) then
        update
          (notified (e\<lparr>isRunning := True\<rparr>)
             [(''verse-change'',
               VerseData (verseIdx (characters e ! currentIndex e)) (characters e ! currentIndex e)),
              (''character-change'', CharacterData (characters e ! currentIndex e))])
          tk
      else Inl TypeError)"
  by (simp add: startSync_def emit_known Let_def)

lemma stopSync_fields [simp]:
  "characters (stopSync e) = characters e"
  "currentIndex (stopSync e) = currentIndex e"
  "isRunning (stopSync e) = False"
  "handlers (stopSync e) = handlers e"
  "emitted (stopSync e) = emitted e"
  "delivered (stopSync e) = delivered e"
  by (simp_all add: stopSync_def split: option.splits)

lemma startSync_cursor_le:
  assumes "startSync e tk = Inr e'"
  shows "currentIndex e \<le> currentIndex e'"
proof -
  consider "isRunning e" | e1 where "\<not> isRunning e" "update e1 tk = Inr e'"
      "currentIndex e1 = currentIndex e"
    using assms by (auto simp: startSync_eq split: if_splits)
  then show ?thesis
  proof cases
    case 1
    with assms show ?thesis by (simp add: startSync_eq)
  next
    case 2
    with update_cursor_le [of e1 tk e'] show ?thesis by simp
  qed
qed

subsection \<open>Flattening and the seek scan\<close>

lemma push_characters_length:
  "length (push_characters v cds c chars) = length chars + length cds"
  by (induction cds arbitrary: c chars) simp_all

lemma push_characters_globalIdx:
  "map globalIdx (push_characters v cds c chars)
     = map globalIdx chars @ [length chars ..< length chars + length cds]"
proof (induction cds arbitrary: c chars)
  case Nil
  show ?case by simp
next
  case (Cons cd cds)
  show ?case
    by (simp add: Cons.IH upt_conv_Cons [of "length chars"] del: upt_Suc)
qed

lemma push_characters_time:
  "map time (push_characters v cds c chars) = map time chars @ map time cds"
  by (induction cds arbitrary: c chars) simp_all

lemma push_verses_time:
  "map time (push_verses vs v chars) = map time chars @ document_times vs"
  by (induction vs arbitrary: v chars) (simp_all add: push_characters_time document_times_def)

lemma push_verses_globalIdx:
  "map globalIdx chars = [0 ..< length chars] \<Longrightarrow>
     map globalIdx (push_verses vs v chars) = [0 ..< length (push_verses vs v chars)]"
proof (induction vs arbitrary: v chars)
  case Nil
  then show ?case by simp
next
  case (Cons x vs)
  have "map globalIdx (push_characters v (verse_characters x) 0 chars)
          = [0 ..< length (push_characters v (verse_characters x) 0 chars)]"
    using Cons.prems
    by (simp add: push_characters_globalIdx push_characters_length
        upt_add_eq_append [of 0 "length chars"])
  then show ?case
    by (simp add: Cons.IH)
qed

lemma seek_scan_eq:
  "seek_scan cs t i n =
     (if i < length cs \<and> time (cs ! i) \<le> t
      then i + length (takeWhile (\<lambda>c. time c \<le> t) (drop i cs)) - 1 else n)"
proof (induction cs t i n rule: seek_scan.induct)
  case (1 cs t i n)
  show ?case
  proof (cases "i < length cs \<and> time (cs ! i) \<le> t")
    case False
    then show ?thesis
      by (subst seek_scan.simps) auto
  next
    case True
    then have d: "drop i cs = cs ! i # drop (i + 1) cs"
      by (simp add: Cons_nth_drop_Suc)
    have "seek_scan cs t i n = seek_scan cs t (i + 1) i"
      using True by (subst seek_scan.simps) simp
    also have "\<dots> = (if i + 1 < length cs \<and> time (cs ! (i + 1)) \<le> t
      then i + 1 + length (takeWhile (\<lambda>c. time c \<le> t) (drop (i + 1) cs)) - 1 else i)"
      using True by (intro "1.IH") simp_all
    also have "\<dots> = i + length (takeWhile (\<lambda>c. time c \<le> t) (drop i cs)) - 1"
    proof (cases "i + 1 < length cs")
      case False
      with True d show ?thesis by simp
    next
      case True2: True
      then have "drop (i + 1) cs = cs ! (i + 1) # drop (i + 2) cs"
        by (simp add: Cons_nth_drop_Suc)
      with True True2 d show ?thesis by simp
    qed
    finally show ?thesis
      using True by simp
  qed
qed

text \<open>
  The scan of \<^verbatim>\<open>seekTo\<close> returns the last index of the longest prefix of units
  that are due at the target time, and 0 when that prefix is empty.
\<close>

lemma seek_scan_takeWhile:
  "seek_scan cs t 0 0 = length (takeWhile (\<lambda>c. time c \<le> t) cs) - 1"
  by (cases cs) (simp_all add: seek_scan_eq)

lemma seek_scan_Nil [simp]: "seek_scan [] t 0 0 = 0"
  by (simp add: seek_scan_takeWhile)

lemma seek_scan_in_range: "cs \<noteq> [] \<Longrightarrow> seek_scan cs t 0 0 < length cs"
proof -
  assume "cs \<noteq> []"
  moreover have "length (takeWhile (\<lambda>c. time c \<le> t) cs) \<le> length cs"
    by (rule length_takeWhile_le)
  ultimately show ?thesis
    by (cases cs) (simp_all add: seek_scan_takeWhile)
qed

lemma seek_scan_due:
  assumes "cs \<noteq> []" and "time (cs ! 0) \<le> t"
  shows "time (cs ! seek_scan cs t 0 0) \<le> t"
proof -
  let ?tw = "takeWhile (\<lambda>c. time c \<le> t) cs"
  from assms have "?tw \<noteq> []" by (cases cs) simp_all
  then have r: "seek_scan cs t 0 0 < length ?tw"
    by (simp add: seek_scan_takeWhile)
  then have "?tw ! seek_scan cs t 0 0 \<in> set ?tw" by (rule nth_mem)
  then have "time (?tw ! seek_scan cs t 0 0) \<le> t" by (auto dest: set_takeWhileD)
  with r show ?thesis by (simp add: takeWhile_nth)
qed

lemma seek_scan_next:
  assumes "cs \<noteq> []" and "time (cs ! 0) \<le> t"
  shows "seek_scan cs t 0 0 = length cs - 1 \<or> t < time (cs ! (seek_scan cs t 0 0 + 1))"
proof -
  let ?tw = "takeWhile (\<lambda>c. time c \<le> t) cs"
  from assms have ne: "?tw \<noteq> []" by (cases cs) simp_all
  then have r: "seek_scan cs t 0 0 + 1 = length ?tw"
    by (cases ?tw) (simp_all add: seek_scan_takeWhile)
  show ?thesis
  proof (cases "length ?tw < length cs")
    case True
    then have "\<not> time (cs ! length ?tw) \<le> t" by (rule nth_length_takeWhile)
    with r show ?thesis by simp
  next
    case False
    moreover have "length ?tw \<le> length cs" by (rule length_takeWhile_le)
    ultimately have "seek_scan cs t 0 0 + 1 = length cs" using r by simp
    then show ?thesis by arith
  qed
qed

lemma seek_scan_default: "cs \<noteq> [] \<Longrightarrow> t < time (cs ! 0) \<Longrightarrow> seek_scan cs t 0 0 = 0"
  by (cases cs) (simp_all add: seek_scan_takeWhile)

lemma seek_scan_highest:
  assumes srt: "sorted (map time cs)" and j: "j < length cs" and due: "time (cs ! j) \<le> t"
  shows "j \<le> seek_scan cs t 0 0"
proof (rule ccontr)
  let ?tw = "takeWhile (\<lambda>c. time c \<le> t) cs"
  assume "\<not> j \<le> seek_scan cs t 0 0"
  then have lj: "length ?tw \<le> j" by (simp add: seek_scan_takeWhile)
  with j have "length ?tw < length cs" by simp
  then have nd: "\<not> time (cs ! length ?tw) \<le> t" by (rule nth_length_takeWhile)
  have "map time cs ! length ?tw \<le> map time cs ! j"
    using srt lj j by (intro sorted_nth_mono) simp_all
  with j lj have "time (cs ! length ?tw) \<le> time (cs ! j)" by simp
  with due nd show False by simp
qed

lemma seekTo_eq:
  "seekTo e t =
     (if seek_scan (characters e) t 0 0 < length (characters e)
      then Inr ((notified e
                  [(''verse-change'',
                    VerseData (verseIdx (characters e ! seek_scan (characters e) t 0 0))
                      (characters e ! seek_scan (characters e) t 0 0)),
                   (''character-change'',
                    CharacterData (characters e ! seek_scan (characters e) t 0 0))])
                \<lparr>currentIndex := seek_scan (characters e) t 0 0\<rparr>)
      else Inr (e\<lparr>currentIndex := seek_scan (characters e) t 0 0\<rparr>))"
  by (simp add: seekTo_def Let_def emit_known)

subsection \<open>Reachable states\<close>

text \<open>
  In every reachable state the sequence is the flattened one of the constructor, and the
  cursor is in range unless the sequence is empty.
\<close>

lemma update_in_range:
  assumes "update e tk = Inr e'"
  shows "characters e' = characters e \<and>
         (currentIndex e < length (characters e) \<longrightarrow> currentIndex e' < length (characters e'))"
  using assms scan_target_in_range [of "currentIndex e" "characters e" "audio_currentTime tk"]
  by (auto simp: update_eq split: if_splits)

lemma startSync_in_range:
  assumes "startSync e tk = Inr e'"
  shows "characters e' = characters e \<and>
         (currentIndex e < length (characters e) \<longrightarrow> currentIndex e' < length (characters e'))"
proof (cases "isRunning e")
  case True
  with assms show ?thesis by (simp add: startSync_eq)
next
  case False
  with assms obtain e1 where "update e1 tk = Inr e'" "characters e1 = characters e"
      "currentIndex e1 = currentIndex e"
    by (auto simp: startSync_eq split: if_splits)
  with update_in_range [of e1 tk e'] show ?thesis by auto
qed

lemma seekTo_in_range:
  assumes "seekTo e t = Inr e'"
  shows "characters e' = characters e \<and>
         (characters e \<noteq> [] \<longrightarrow> currentIndex e' < length (characters e'))"
  using assms seek_scan_in_range [of "characters e" t]
  by (auto simp: seekTo_eq split: if_splits)

lemma reachable_invariant:
  assumes "reachable sd e"
  shows "characters e = flattenCharacters sd \<and>
         (characters e \<noteq> [] \<longrightarrow> currentIndex e < length (characters e))"
  using assms
proof (induction rule: reachable.induct)
  case constructed
  show ?case by (auto simp: AudioSyncEngine_def)
next
  case (started e tk e')
  with startSync_in_range [of e tk e'] show ?case by auto
next
  case (stopped e)
  then show ?case by auto
next
  case (ticked e tk e')
  with update_in_range [of e tk e'] show ?case by auto
next
  case (sought e t e')
  with seekTo_in_range [of e t e'] show ?case by auto
next
  case (was_reset e)
  then show ?case by (auto simp: reset_def)
next
  case (registered e event callback e')
  then show ?case by (auto simp: on_def split: handler_value.splits)
next
  case (unregistered e event callback e')
  then show ?case by (auto simp: off_def split: handler_value.splits)
next
  case (emitted_to e event data e')
  then show ?case by (auto dest: emit_Inr_fields)
qed

lemma reachable_in_range:
  "reachable sd e \<Longrightarrow> characters e \<noteq> [] \<Longrightarrow> currentIndex e < length (characters e)"
  using reachable_invariant [of sd e] by auto

lemma reachable_sorted: "reachable sd e \<Longrightarrow> sorted (map time (characters e))"
  using reachable_invariant [of sd e] by (auto simp: flattenCharacters_def)

lemma update_handlers: "update e tk = Inr e' \<Longrightarrow> handlers e' = handlers e"
  by (auto simp: update_eq split: if_splits)

lemma startSync_handlers: "startSync e tk = Inr e' \<Longrightarrow> handlers e' = handlers e"
  by (auto simp: startSync_eq update_eq split: if_splits)

lemma seekTo_handlers: "seekTo e t = Inr e' \<Longrightarrow> handlers e' = handlers e"
  by (auto simp: seekTo_eq split: if_splits)

lemma emit_handlers: "emit e event data = Inr e' \<Longrightarrow> handlers e' = handlers e"
  by (auto simp: emit_def split: handler_value.splits)

lemma constructed_handlers_ok: "handlers_ok (handlers (AudioSyncEngine sd))"
proof -
  have d: "dom (handlers (AudioSyncEngine sd))
      = {''character-change'', ''verse-change'', ''time-update''}"
    by (simp add: AudioSyncEngine_def insert_commute)
  have "distinct s" if "handlers (AudioSyncEngine sd) event = Some s" for event s
    using that by (simp add: AudioSyncEngine_def split: if_splits)
  then have "\<forall>s \<in> ran (handlers (AudioSyncEngine sd)). distinct s"
    unfolding ran_def by blast
  with d show ?thesis
    by (simp add: handlers_ok_def)
qed

lemma handlers_ok_replace:
  assumes "handlers_ok h" and "h event = Some s" and "distinct s'"
  shows "handlers_ok (h(event \<mapsto> s'))"
proof -
  have "event \<in> dom h" using assms(2) by auto
  then have "dom (h(event \<mapsto> s')) = dom h" by auto
  moreover have "distinct x" if "x \<in> ran (h(event \<mapsto> s'))" for x
  proof -
    from that obtain k where k: "(h(event \<mapsto> s')) k = Some x"
      by (auto simp: ran_def)
    show ?thesis
    proof (cases "k = event")
      case True
      with k assms(3) show ?thesis by simp
    next
      case False
      with k have "h k = Some x" by simp
      then have "x \<in> ran h" by (auto simp: ran_def)
      with assms(1) show ?thesis by (simp add: handlers_ok_def)
    qed
  qed
  ultimately show ?thesis
    using assms(1) by (simp add: handlers_ok_def)
qed

lemma on_handlers_ok:
  assumes "handlers_ok (handlers e)" and "on e event callback = Inr e'"
  shows "handlers_ok (handlers e')"
proof (cases "handlers e event")
  case None
  with assms(2) have "e' = e"
    by (auto simp: on_def handlers_get_def split: if_splits)
  with assms(1) show ?thesis by simp
next
  case (Some s)
  with assms(2) have e': "handlers e' = (handlers e)(event \<mapsto> set_add s callback)"
    by (auto simp: on_def handlers_get_def)
  from Some have "s \<in> ran (handlers e)" by (auto simp: ran_def)
  with assms(1) have "distinct s" by (simp add: handlers_ok_def)
  then have "distinct (set_add s callback)" by (simp add: set_add_def)
  with assms(1) Some show ?thesis
    unfolding e' by (rule handlers_ok_replace)
qed

lemma off_handlers_ok:
  assumes "handlers_ok (handlers e)" and "off e event callback = Inr e'"
  shows "handlers_ok (handlers e')"
proof (cases "handlers e event")
  case None
  with assms(2) have "e' = e"
    by (auto simp: off_def handlers_get_def split: if_splits)
  with assms(1) show ?thesis by simp
next
  case (Some s)
  with assms(2) have e': "handlers e' = (handlers e)(event \<mapsto> set_delete s callback)"
    by (auto simp: off_def handlers_get_def)
  from Some have "s \<in> ran (handlers e)" by (auto simp: ran_def)
  with assms(1) have "distinct s" by (simp add: handlers_ok_def)
  then have "distinct (set_delete s callback)" by (simp add: set_delete_def distinct_removeAll)
  with assms(1) Some show ?thesis
    unfolding e' by (rule handlers_ok_replace)
qed

lemma reachable_handlers:
  assumes "reachable sd e"
  shows "handlers_ok (handlers e)"
  using assms
proof (induction rule: reachable.induct)
  case constructed
  show ?case by (rule constructed_handlers_ok)
next
  case (started e tk e')
  then show ?case by (simp add: startSync_handlers)
next
  case (stopped e)
  then show ?case by simp
next
  case (ticked e tk e')
  then show ?case by (simp add: update_handlers)
next
  case (sought e t e')
  then show ?case by (simp add: seekTo_handlers)
next
  case (was_reset e)
  then show ?case by (simp add: reset_def)
next
  case (registered e event callback e')
  then show ?case by (simp add: on_handlers_ok)
next
  case (unregistered e event callback e')
  then show ?case by (simp add: off_handlers_ok)
next
  case (emitted_to e event data e')
  then show ?case by (simp add: emit_handlers)
qed

section \<open>Example data\<close>

text \<open>
  \<open>scenario_song\<close> is the sequence of the specification's scenarios A to C (units at
  the times 0, 2 and 5, the last one in a second verse); \<open>unsorted_song\<close> has its
  verses out of time order.
\<close>

definition example_unit :: "string \<Rightarrow> rat \<Rightarrow> charData" where
  "example_unit c t = \<lparr>char = c, pinyin = None, meaning = None, time = t\<rparr>"

definition scenario_song :: songData where
  "scenario_song =
     \<lparr>verses =
        [\<lparr>verse_characters = [example_unit ''a'' 0, example_unit ''b'' 2], translation = ''first''\<rparr>,
         \<lparr>verse_characters = [example_unit ''c'' 5], translation = ''second''\<rparr>]\<rparr>"

definition unsorted_song :: songData where
  "unsorted_song =
     \<lparr>verses =
        [\<lparr>verse_characters = [example_unit ''a'' 5], translation = ''first''\<rparr>,
         \<lparr>verse_characters = [example_unit ''b'' 2], translation = ''second''\<rparr>]\<rparr>"

definition empty_song :: songData where
  "empty_song = \<lparr>verses = []\<rparr>"

definition example_tick :: "rat \<Rightarrow> tick" where
  "example_tick t =
     \<lparr>audio_currentTime = t, audio_duration = Some 258, state_duration = Some 0, frame_handle = 1\<rparr>"

definition scenario_running :: engine where
  "scenario_running =
     (AudioSyncEngine scenario_song)
       \<lparr>isRunning := True, syncLoop := Some 1,
         emitted :=
           [(''verse-change'', VerseData 0 (flattenCharacters scenario_song ! 0)),
            (''character-change'', CharacterData (flattenCharacters scenario_song ! 0)),
            (''time-update'', TimeData 0 258)]\<rparr>"

definition scenario_at_end :: engine where
  "scenario_at_end =
     (AudioSyncEngine scenario_song)
       \<lparr>currentIndex := 2, isRunning := True, syncLoop := Some 1,
         emitted :=
           [(''verse-change'', VerseData 0 (flattenCharacters scenario_song ! 0)),
            (''character-change'', CharacterData (flattenCharacters scenario_song ! 0)),
            (''time-update'', TimeData 6 258),
            (''character-change'', CharacterData (flattenCharacters scenario_song ! 1)),
            (''verse-change'', VerseData 1 (flattenCharacters scenario_song ! 2)),
            (''character-change'', CharacterData (flattenCharacters scenario_song ! 2))]\<rparr>"

text \<open>
  The engine of the scenario with one callback registered under each event kind
  (7 for \<^verbatim>\<open>'character-change'\<close>, 8 for \<^verbatim>\<open>'verse-change'\<close>, 9 for
  \<^verbatim>\<open>'time-update'\<close>), before and after it was started at playback time 0.
\<close>

definition scenario_observed :: engine where
  "scenario_observed =
     (AudioSyncEngine scenario_song)
       \<lparr>handlers :=
          (handlers (AudioSyncEngine scenario_song))
            (''character-change'' \<mapsto> [7], ''verse-change'' \<mapsto> [8], ''time-update'' \<mapsto> [9])\<rparr>"

definition scenario_observed_running :: engine where
  "scenario_observed_running =
     scenario_observed
       \<lparr>isRunning := True, syncLoop := Some 1,
         emitted :=
           [(''verse-change'', VerseData 0 (flattenCharacters scenario_song ! 0)),
            (''character-change'', CharacterData (flattenCharacters scenario_song ! 0)),
            (''time-update'', TimeData 0 258)],
         delivered :=
           [(8, VerseData 0 (flattenCharacters scenario_song ! 0)),
            (7, CharacterData (flattenCharacters scenario_song ! 0)),
            (9, TimeData 0 258)]\<rparr>"

lemma scenario_characters:
  "flattenCharacters scenario_song =
     [\<lparr>char = ''a'', pinyin = None, meaning = None, time = 0, verseIdx = 0, charIdx = 0, globalIdx = 0\<rparr>,
      \<lparr>char = ''b'', pinyin = None, meaning = None, time = 2, verseIdx = 0, charIdx = 1, globalIdx = 1\<rparr>,
      \<lparr>char = ''c'', pinyin = None, meaning = None, time = 5, verseIdx = 1, charIdx = 0, globalIdx = 2\<rparr>]"
  by (simp add: flattenCharacters_def scenario_song_def example_unit_def)

lemma unsorted_characters:
  "flattenCharacters unsorted_song =
     [\<lparr>char = ''b'', pinyin = None, meaning = None, time = 2, verseIdx = 1, charIdx = 0, globalIdx = 1\<rparr>,
      \<lparr>char = ''a'', pinyin = None, meaning = None, time = 5, verseIdx = 0, charIdx = 0, globalIdx = 0\<rparr>]"
  by (simp add: flattenCharacters_def unsorted_song_def example_unit_def)

lemma scenario_engine_characters:
  "characters (AudioSyncEngine scenario_song) = flattenCharacters scenario_song"
  by (simp add: AudioSyncEngine_def)

lemma scenario_running_fields:
  "characters scenario_running = flattenCharacters scenario_song"
  "currentIndex scenario_running = 0"
  "isRunning scenario_running"
  by (simp_all add: scenario_running_def AudioSyncEngine_def)

lemma scenario_running_started:
  "startSync (AudioSyncEngine scenario_song) (example_tick 0) = Inr scenario_running"
  by (simp add: startSync_eq update_eq scan_target_def AudioSyncEngine_def scenario_characters
      example_tick_def guarded_duration_def notified_def deliveries_def scenario_running_def)

lemma scenario_reachable:
  "reachable scenario_song (AudioSyncEngine scenario_song)"
  "reachable scenario_song scenario_running"
  using reachable.constructed [of scenario_song]
    reachable.started [OF reachable.constructed scenario_running_started]
  by simp_all

lemma scenario_observed_fields:
  "characters scenario_observed = flattenCharacters scenario_song"
  "currentIndex scenario_observed = 0"
  "\<not> isRunning scenario_observed"
  "emitted scenario_observed = []"
  "delivered scenario_observed = []"
  "handlers scenario_observed ''character-change'' = Some [7]"
  "handlers scenario_observed ''verse-change'' = Some [8]"
  "handlers scenario_observed ''time-update'' = Some [9]"
  by (simp_all add: scenario_observed_def AudioSyncEngine_def)

lemma scenario_observed_running_fields:
  "characters scenario_observed_running = flattenCharacters scenario_song"
  "currentIndex scenario_observed_running = 0"
  "isRunning scenario_observed_running"
  "handlers scenario_observed_running ''character-change'' = Some [7]"
  "handlers scenario_observed_running ''verse-change'' = Some [8]"
  "handlers scenario_observed_running ''time-update'' = Some [9]"
  by (simp_all add: scenario_observed_running_def scenario_observed_def AudioSyncEngine_def)

lemma scenario_observed_registered:
  "and_then (on (AudioSyncEngine scenario_song) ''character-change'' 7)
     (\<lambda>e1. and_then (on e1 ''verse-change'' 8) (\<lambda>e2. on e2 ''time-update'' 9))
   = Inr scenario_observed"
  by (simp add: on_def handlers_get_def set_add_def AudioSyncEngine_def scenario_observed_def)

lemma scenario_observed_started:
  "startSync scenario_observed (example_tick 0) = Inr scenario_observed_running"
  by (simp add: startSync_eq update_eq scan_target_def scenario_observed_def AudioSyncEngine_def
      scenario_characters example_tick_def guarded_duration_def notified_def deliveries_def
      scenario_observed_running_def)

lemma scenario_observed_reachable:
  "reachable scenario_song scenario_observed"
  "reachable scenario_song scenario_observed_running"
proof -
  obtain e1 where e1: "on (AudioSyncEngine scenario_song) ''character-change'' 7 = Inr e1"
    by (simp add: on_def handlers_get_def AudioSyncEngine_def)
  obtain e2 where e2: "on e1 ''verse-change'' 8 = Inr e2"
    using scenario_observed_registered by (cases "on e1 ''verse-change'' 8") (simp_all add: e1)
  have e3: "on e2 ''time-update'' 9 = Inr scenario_observed"
    using scenario_observed_registered by (simp add: e1 e2)
  have "reachable scenario_song e1"
    using reachable.constructed e1 by (rule reachable.registered)
  then have "reachable scenario_song e2"
    using e2 by (rule reachable.registered)
  then show r: "reachable scenario_song scenario_observed"
    using e3 by (rule reachable.registered)
  show "reachable scenario_song scenario_observed_running"
    using r scenario_observed_started by (rule reachable.started)
qed

section \<open>The flattened sequence\<close>

text \<open>
  Claim C5. For every song data the flattened sequence is non-decreasing in time:
  neighbouring units \<open>i\<close> and \<open>i + 1\<close> satisfy
  \<open>time (sequence ! i) \<le> time (sequence ! (i + 1))\<close>, also when the verses of the
  input are not in time order.
\<close>

theorem flattenCharacters_sorted:
  "sorted (map time (flattenCharacters sd)) \<and>
   (i + 1 < length (flattenCharacters sd) \<longrightarrow>
      time (flattenCharacters sd ! i) \<le> time (flattenCharacters sd ! (i + 1)))"
proof -
  have s: "sorted (map time (flattenCharacters sd))"
    by (simp add: flattenCharacters_def)
  have "time (flattenCharacters sd ! i) \<le> time (flattenCharacters sd ! (i + 1))"
    if "i + 1 < length (flattenCharacters sd)"
    using sorted_nth_mono [OF s, of i "i + 1"] that by simp
  with s show ?thesis by blast
qed

theorem flattenCharacters_sorted_witness:
  "0 + 1 < length (flattenCharacters unsorted_song) \<and>
   \<not> sorted (document_times (verses unsorted_song)) \<and>
   time (flattenCharacters unsorted_song ! 0) \<le> time (flattenCharacters unsorted_song ! (0 + 1))"
proof -
  have h: "0 + 1 < length (flattenCharacters unsorted_song)"
    by (simp add: unsorted_characters)
  have u: "\<not> sorted (document_times (verses unsorted_song))"
    by (simp add: document_times_def unsorted_song_def example_unit_def)
  from h u flattenCharacters_sorted [of unsorted_song 0] show ?thesis
    by blast
qed

text \<open>
  Claim C4 says that after construction \<open>globalIdx\<close> of the unit at position \<open>i\<close>
  of the sorted sequence is \<open>i\<close>, for every input. \<open>globalIdx\<close> is assigned at the
  push, before the sort: in \<open>unsorted_song\<close> the unit sorted to position 0 was pushed
  second and carries \<open>globalIdx = 1\<close>.
\<close>

theorem globalIdx_unsorted_counterexample:
  "0 < length (flattenCharacters unsorted_song) \<and>
   globalIdx (flattenCharacters unsorted_song ! 0) = 1 \<and>
   globalIdx (flattenCharacters unsorted_song ! 0) \<noteq> 0"
  by (simp add: unsorted_characters)

text \<open>
  Claim C4, amended. \<open>globalIdx\<close> is the position of the unit in the order in which
  the units were pushed (verse by verse, before the sort), and the sorted sequence holds
  exactly the pushed units. When the units are in non-decreasing time order in that
  document order, the unit at position \<open>i\<close> of the sorted sequence has \<open>globalIdx = i\<close>.
\<close>

theorem globalIdx_document_order:
  "map globalIdx (push_verses (verses sd) 0 []) = [0 ..< length (push_verses (verses sd) 0 [])] \<and>
   mset (flattenCharacters sd) = mset (push_verses (verses sd) 0 []) \<and>
   (sorted (document_times (verses sd)) \<longrightarrow>
      (\<forall>i < length (flattenCharacters sd). globalIdx (flattenCharacters sd ! i) = i))"
proof -
  have g: "map globalIdx (push_verses (verses sd) 0 []) = [0 ..< length (push_verses (verses sd) 0 [])]"
    by (rule push_verses_globalIdx) simp
  have m: "mset (flattenCharacters sd) = mset (push_verses (verses sd) 0 [])"
    by (simp add: flattenCharacters_def)
  have "globalIdx (flattenCharacters sd ! i) = i"
    if srt: "sorted (document_times (verses sd))" and i: "i < length (flattenCharacters sd)" for i
  proof -
    have "sorted (map time (push_verses (verses sd) 0 []))"
      using srt by (simp add: push_verses_time)
    then have eq: "flattenCharacters sd = push_verses (verses sd) 0 []"
      by (simp add: flattenCharacters_def sort_key_id_if_sorted)
    have "globalIdx (flattenCharacters sd ! i) = map globalIdx (push_verses (verses sd) 0 []) ! i"
      using i by (simp add: eq)
    also have "\<dots> = i"
      using i by (simp only: g) (simp add: eq)
    finally show ?thesis .
  qed
  with g m show ?thesis by blast
qed

theorem globalIdx_document_order_witness:
  "sorted (document_times (verses scenario_song)) \<and>
   2 < length (flattenCharacters scenario_song) \<and>
   globalIdx (flattenCharacters scenario_song ! 2) = 2"
proof -
  have s: "sorted (document_times (verses scenario_song))"
    by (simp add: document_times_def scenario_song_def example_unit_def)
  have l: "2 < length (flattenCharacters scenario_song)"
    by (simp add: scenario_characters)
  from s l globalIdx_document_order [of scenario_song] show ?thesis
    by blast
qed

section \<open>Seeking\<close>

text \<open>
  Claim C1. In every reachable state with a non-empty sequence \<^verbatim>\<open>seekTo(t)\<close>
  returns and sets the cursor to the highest index whose unit has \<open>time \<le> t\<close>: the
  unit at the cursor is due, no unit at a higher index is due, and the cursor is the
  last index or the next unit's time exceeds \<open>t\<close>. When no unit is due (\<open>t\<close> is
  before the first unit's time) the cursor is 0.
\<close>

theorem seekTo_highest_index:
  assumes "reachable sd e" and "characters e \<noteq> []"
  shows "\<exists>e'. seekTo e t = Inr e' \<and> characters e' = characters e \<and>
           currentIndex e' < length (characters e) \<and>
           (if \<exists>j < length (characters e). time (characters e ! j) \<le> t
            then time (characters e ! currentIndex e') \<le> t \<and>
                 (\<forall>j < length (characters e). time (characters e ! j) \<le> t \<longrightarrow> j \<le> currentIndex e') \<and>
                 (currentIndex e' = length (characters e) - 1 \<or>
                  t < time (characters e ! (currentIndex e' + 1)))
            else currentIndex e' = 0)"
proof -
  let ?cs = "characters e"
  let ?r = "seek_scan ?cs t 0 0"
  let ?e' = "(notified e
                  [(''verse-change'', VerseData (verseIdx (?cs ! ?r)) (?cs ! ?r)),
                   (''character-change'', CharacterData (?cs ! ?r))])
                \<lparr>currentIndex := ?r\<rparr>"
  have srt: "sorted (map time ?cs)"
    using assms(1) by (rule reachable_sorted)
  have r: "?r < length ?cs"
    using assms(2) by (rule seek_scan_in_range)
  then have run: "seekTo e t = Inr ?e'"
    by (simp add: seekTo_eq)
  have idx: "currentIndex ?e' = ?r" and cs: "characters ?e' = ?cs"
    by simp_all
  have first: "time (?cs ! 0) \<le> t" if "j < length ?cs" and "time (?cs ! j) \<le> t" for j
  proof -
    have "map time ?cs ! 0 \<le> map time ?cs ! j"
      using srt that(1) by (intro sorted_nth_mono) simp_all
    with that assms(2) show ?thesis by simp
  qed
  have pos: "time (?cs ! ?r) \<le> t \<and>
        (\<forall>j < length ?cs. time (?cs ! j) \<le> t \<longrightarrow> j \<le> ?r) \<and>
        (?r = length ?cs - 1 \<or> t < time (?cs ! (?r + 1)))"
    if "\<exists>j < length ?cs. time (?cs ! j) \<le> t"
  proof -
    from that first have f: "time (?cs ! 0) \<le> t" by blast
    show ?thesis
      using seek_scan_due [OF assms(2) f] seek_scan_next [OF assms(2) f]
        seek_scan_highest [OF srt]
      by blast
  qed
  have neg: "?r = 0" if "\<not> (\<exists>j < length ?cs. time (?cs ! j) \<le> t)"
  proof -
    from that assms(2) have "t < time (?cs ! 0)" by (auto simp: not_le)
    with assms(2) show ?thesis by (rule seek_scan_default)
  qed
  show ?thesis
    unfolding run
    apply (rule exI [of _ ?e'])
    apply (simp only: idx cs)
    using r pos neg by auto
qed

theorem seekTo_highest_index_witness:
  "reachable scenario_song (AudioSyncEngine scenario_song) \<and>
   characters (AudioSyncEngine scenario_song) \<noteq> [] \<and>
   (\<exists>e'. seekTo (AudioSyncEngine scenario_song) 4 = Inr e' \<and>
      characters e' = characters (AudioSyncEngine scenario_song) \<and>
      currentIndex e' < length (characters (AudioSyncEngine scenario_song)) \<and>
      time (characters (AudioSyncEngine scenario_song) ! currentIndex e') \<le> 4 \<and>
      (currentIndex e' = length (characters (AudioSyncEngine scenario_song)) - 1 \<or>
       4 < time (characters (AudioSyncEngine scenario_song) ! (currentIndex e' + 1))))"
proof -
  have h1: "reachable scenario_song (AudioSyncEngine scenario_song)"
    by (rule reachable.constructed)
  have c: "characters (AudioSyncEngine scenario_song) = flattenCharacters scenario_song"
    by (rule scenario_engine_characters)
  have h2: "characters (AudioSyncEngine scenario_song) \<noteq> []"
    by (simp add: c scenario_characters)
  have due: "\<exists>j < length (characters (AudioSyncEngine scenario_song)).
      time (characters (AudioSyncEngine scenario_song) ! j) \<le> 4"
    by (rule exI [of _ 0]) (simp add: c scenario_characters)
  from seekTo_highest_index [OF h1 h2, of 4] due h1 h2 show ?thesis
    by (simp only: if_True) blast
qed

text \<open>Scenarios B and C of the specification, evaluated.\<close>

lemma scenario_B:
  "seekTo (AudioSyncEngine scenario_song) 4 =
     Inr ((AudioSyncEngine scenario_song)
            \<lparr>currentIndex := 1,
              emitted :=
                [(''verse-change'', VerseData 0 (flattenCharacters scenario_song ! 1)),
                 (''character-change'', CharacterData (flattenCharacters scenario_song ! 1))]\<rparr>)"
  by (simp add: seekTo_eq seek_scan_takeWhile scenario_engine_characters scenario_characters
      notified_def deliveries_def AudioSyncEngine_def)

lemma scenario_C:
  "seekTo (AudioSyncEngine scenario_song) (- 10) =
     Inr ((AudioSyncEngine scenario_song)
            \<lparr>currentIndex := 0,
              emitted :=
                [(''verse-change'', VerseData 0 (flattenCharacters scenario_song ! 0)),
                 (''character-change'', CharacterData (flattenCharacters scenario_song ! 0))]\<rparr>)"
  by (simp add: seekTo_eq seek_scan_takeWhile scenario_engine_characters scenario_characters
      notified_def deliveries_def AudioSyncEngine_def)

section \<open>The update loop\<close>

text \<open>
  Claim C2. A run of \<^verbatim>\<open>update\<close> on a running engine with a non-empty sequence,
  in any reachable state, returns and moves the cursor by the forward-scan rule only:
  the cursor does not go back, every unit it passes or reaches is due at the playback
  time, and it stops at the last index or in front of a unit whose time exceeds the
  playback time. The notifications of the run are the \<^verbatim>\<open>'time-update'\<close> and those
  of the passes of the loop; among them the \<^verbatim>\<open>'character-change'\<close> ones are
  exactly one for each newly reached unit, in order. Each notification is delivered, in
  this order, to every callback registered under its name, and the registry is left as
  it was.
\<close>

theorem update_forward_scan:
  assumes "reachable sd e" and "isRunning e" and "characters e \<noteq> []"
  shows "\<exists>e' new. update e tk = Inr e' \<and> characters e' = characters e \<and>
           currentIndex e \<le> currentIndex e' \<and> currentIndex e' < length (characters e) \<and>
           (\<forall>j. currentIndex e < j \<and> j \<le> currentIndex e' \<longrightarrow>
                  time (characters e ! j) \<le> audio_currentTime tk) \<and>
           (currentIndex e' = length (characters e) - 1 \<or>
            audio_currentTime tk < time (characters e ! (currentIndex e' + 1))) \<and>
           new = (''time-update'',
                  TimeData (audio_currentTime tk)
                    (guarded_duration (audio_duration tk) (state_duration tk)))
                 # advance_notifications (characters e) (currentIndex e) (currentIndex e') \<and>
           emitted e' = emitted e @ new \<and>
           handlers e' = handlers e \<and>
           delivered e' = delivered e @ deliveries (handlers e) new \<and>
           filter (\<lambda>n. fst n = ''character-change'') new =
             map (\<lambda>j. (''character-change'', CharacterData (characters e ! j)))
               [currentIndex e + 1 ..< currentIndex e' + 1]"
proof -
  let ?cs = "characters e" and ?i = "currentIndex e" and ?t = "audio_currentTime tk"
  let ?k = "scan_target ?cs ?i ?t"
  let ?new = "(''time-update'', TimeData ?t (guarded_duration (audio_duration tk) (state_duration tk)))
      # advance_notifications ?cs ?i ?k"
  let ?e' = "(notified e ?new)\<lparr>currentIndex := ?k, syncLoop := Some (frame_handle tk)\<rparr>"
  have run: "update e tk = Inr ?e'"
    using assms(2) by (simp add: update_eq)
  have "?i < length ?cs"
    using assms(1,3) by (rule reachable_in_range)
  then have k: "?k < length ?cs"
    by (rule scan_target_in_range)
  have stop: "?k = length ?cs - 1 \<or> ?t < time (?cs ! (?k + 1))"
  proof (cases "?k + 1 < length ?cs")
    case True
    then have "?t < time (?cs ! (?k + 1))" by (rule scan_target_next)
    then show ?thesis ..
  next
    case False
    with k show ?thesis by arith
  qed
  have due: "\<forall>j. ?i < j \<and> j \<le> ?k \<longrightarrow> time (?cs ! j) \<le> ?t"
    by (auto intro: scan_target_due)
  have flt: "filter (\<lambda>n. fst n = ''character-change'') ?new =
      map (\<lambda>j. (''character-change'', CharacterData (?cs ! j))) [?i + 1 ..< ?k + 1]"
    by (simp add: filter_character_change del: upt_Suc)
  have fields: "characters ?e' = ?cs" "currentIndex ?e' = ?k" "emitted ?e' = emitted e @ ?new"
      "handlers ?e' = handlers e" "delivered ?e' = delivered e @ deliveries (handlers e) ?new"
    by simp_all
  show ?thesis
    unfolding run
    apply (rule exI [of _ ?e'])
    apply (rule exI [of _ ?new])
    apply (simp only: fields)
    using k stop due flt scan_target_ge [of ?i ?cs ?t] by blast
qed

theorem update_forward_scan_witness:
  "reachable scenario_song scenario_observed_running \<and> isRunning scenario_observed_running \<and>
   characters scenario_observed_running \<noteq> [] \<and>
   (\<exists>e'. update scenario_observed_running (example_tick 6) = Inr e' \<and>
      currentIndex e' = 2 \<and>
      emitted e' =
        emitted scenario_observed_running @
        [(''time-update'', TimeData 6 258),
         (''character-change'', CharacterData (flattenCharacters scenario_song ! 1)),
         (''verse-change'', VerseData 1 (flattenCharacters scenario_song ! 2)),
         (''character-change'', CharacterData (flattenCharacters scenario_song ! 2))] \<and>
      delivered e' =
        delivered scenario_observed_running @
        [(9, TimeData 6 258),
         (7, CharacterData (flattenCharacters scenario_song ! 1)),
         (8, VerseData 1 (flattenCharacters scenario_song ! 2)),
         (7, CharacterData (flattenCharacters scenario_song ! 2))])"
proof -
  have h0: "reachable scenario_song scenario_observed_running"
    by (rule scenario_observed_reachable)
  have h1: "isRunning scenario_observed_running"
    by (simp add: scenario_observed_running_fields)
  have h2: "characters scenario_observed_running \<noteq> []"
    by (simp add: scenario_observed_running_fields scenario_characters)
  have f: "audio_currentTime (example_tick 6) = 6"
      "guarded_duration (audio_duration (example_tick 6)) (state_duration (example_tick 6)) = 258"
    by (simp_all add: example_tick_def guarded_duration_def)
  from update_forward_scan [OF h0 h1 h2, of "example_tick 6"]
  obtain e' new where
    u: "update scenario_observed_running (example_tick 6) = Inr e'"
    and lt: "currentIndex e' < length (characters scenario_observed_running)"
    and stop: "currentIndex e' = length (characters scenario_observed_running) - 1 \<or>
       audio_currentTime (example_tick 6)
         < time (characters scenario_observed_running ! (currentIndex e' + 1))"
    and new: "new = (''time-update'',
                  TimeData (audio_currentTime (example_tick 6))
                    (guarded_duration (audio_duration (example_tick 6))
                       (state_duration (example_tick 6))))
                 # advance_notifications (characters scenario_observed_running)
                     (currentIndex scenario_observed_running) (currentIndex e')"
    and em: "emitted e' = emitted scenario_observed_running @ new"
    and dl: "delivered e' = delivered scenario_observed_running
               @ deliveries (handlers scenario_observed_running) new"
    by blast
  from lt have "currentIndex e' = 0 \<or> currentIndex e' = 1 \<or> currentIndex e' = 2"
    by (auto simp: scenario_observed_running_fields scenario_characters)
  with stop have k: "currentIndex e' = 2"
    by (auto simp: scenario_observed_running_fields scenario_characters f)
  have new': "new =
        [(''time-update'', TimeData 6 258),
         (''character-change'', CharacterData (flattenCharacters scenario_song ! 1)),
         (''verse-change'', VerseData 1 (flattenCharacters scenario_song ! 2)),
         (''character-change'', CharacterData (flattenCharacters scenario_song ! 2))]"
    unfolding new k
    by (simp add: f scenario_observed_running_fields scenario_characters
        advance_notifications_def entered_def upt_conv_Cons del: upt_Suc)
  have "deliveries (handlers scenario_observed_running) new =
        [(9, TimeData 6 258),
         (7, CharacterData (flattenCharacters scenario_song ! 1)),
         (8, VerseData 1 (flattenCharacters scenario_song ! 2)),
         (7, CharacterData (flattenCharacters scenario_song ! 2))]"
    unfolding new'
    by (simp add: deliveries_def scenario_observed_running_fields)
  with u k em dl new' h0 h1 h2 show ?thesis
    by simp
qed

text \<open>Scenario A of the specification: ticks at the times 1, 3 and 6.\<close>

lemma scenario_A:
  "updates scenario_running [example_tick 1, example_tick 3, example_tick 6] =
     Inr (scenario_running
            \<lparr>currentIndex := 2,
              emitted :=
                emitted scenario_running @
                [(''time-update'', TimeData 1 258),
                 (''time-update'', TimeData 3 258),
                 (''character-change'', CharacterData (flattenCharacters scenario_song ! 1)),
                 (''time-update'', TimeData 6 258),
                 (''verse-change'', VerseData 1 (flattenCharacters scenario_song ! 2)),
                 (''character-change'', CharacterData (flattenCharacters scenario_song ! 2))]\<rparr>)"
  by (simp add: update_eq scan_target_def advance_notifications_def entered_def
      scenario_running_def AudioSyncEngine_def scenario_characters example_tick_def
      guarded_duration_def notified_def deliveries_def)

section \<open>Starting, ticking and the cursor\<close>

text \<open>
  Claim C3 ends with: the cursor moves backward only through \<^verbatim>\<open>seekTo\<close>.
  \<^verbatim>\<open>reset\<close> moves it backward too: started at playback time 6 the engine of the
  scenario stands at index 2 (no seek was made), and \<^verbatim>\<open>reset\<close> puts it at index 0.
\<close>

theorem reset_moves_back_counterexample:
  "startSync (AudioSyncEngine scenario_song) (example_tick 6) = Inr scenario_at_end \<and>
   currentIndex scenario_at_end = 2 \<and>
   currentIndex (reset scenario_at_end) = 0"
  by (simp add: startSync_eq update_eq scan_target_def advance_notifications_def entered_def
      AudioSyncEngine_def scenario_characters example_tick_def guarded_duration_def
      notified_def deliveries_def scenario_at_end_def reset_def)

text \<open>
  Claim C3, amended. No run of \<^verbatim>\<open>update\<close> moves the cursor backward, whatever the
  playback time of the tick (also a time smaller than at the tick before), and so no
  sequence of runs does; every run returns. \<^verbatim>\<open>startSync\<close>, \<^verbatim>\<open>stopSync\<close>,
  \<^verbatim>\<open>on\<close>, \<^verbatim>\<open>off\<close> and \<^verbatim>\<open>emit\<close> do not move it backward either: backward
  movement happens only through \<^verbatim>\<open>seekTo\<close> or \<^verbatim>\<open>reset\<close>.
\<close>

theorem cursor_forward_only:
  "(\<exists>e'. update e tk = Inr e' \<and> currentIndex e \<le> currentIndex e') \<and>
   (\<exists>e'. updates e tks = Inr e' \<and> currentIndex e \<le> currentIndex e') \<and>
   (\<forall>e'. startSync e tk = Inr e' \<longrightarrow> currentIndex e \<le> currentIndex e') \<and>
   currentIndex (stopSync e) = currentIndex e \<and>
   (\<forall>e'. on e event callback = Inr e' \<longrightarrow> currentIndex e' = currentIndex e) \<and>
   (\<forall>e'. off e event callback = Inr e' \<longrightarrow> currentIndex e' = currentIndex e) \<and>
   (\<forall>e'. emit e event data = Inr e' \<longrightarrow> currentIndex e' = currentIndex e)"
proof -
  have u: "\<exists>e'. update e tk = Inr e' \<and> currentIndex e \<le> currentIndex e'"
    using update_returns [of e tk] update_cursor_le [of e tk] by blast
  have on_off: "\<forall>e'. on e event callback = Inr e' \<longrightarrow> currentIndex e' = currentIndex e"
      "\<forall>e'. off e event callback = Inr e' \<longrightarrow> currentIndex e' = currentIndex e"
    by (auto simp: on_def off_def split: handler_value.splits)
  have em: "\<forall>e'. emit e event data = Inr e' \<longrightarrow> currentIndex e' = currentIndex e"
    by (auto dest: emit_Inr_fields)
  show ?thesis
    using u updates_cursor_le [of e tks] startSync_cursor_le [of e tk] on_off em
    by simp
qed

theorem cursor_forward_only_witness:
  "startSync (AudioSyncEngine scenario_song) (example_tick 6) = Inr scenario_at_end \<and>
   currentIndex (AudioSyncEngine scenario_song) \<le> currentIndex scenario_at_end \<and>
   (\<exists>e'. updates scenario_at_end [example_tick 1, example_tick 0] = Inr e' \<and>
      currentIndex scenario_at_end \<le> currentIndex e') \<and>
   (\<exists>e'. on scenario_at_end ''verse-change'' 7 = Inr e' \<and>
      currentIndex e' = currentIndex scenario_at_end) \<and>
   (\<exists>e'. off scenario_at_end ''verse-change'' 7 = Inr e' \<and>
      currentIndex e' = currentIndex scenario_at_end) \<and>
   (\<exists>e'. emit scenario_at_end ''verse-change''
           (VerseData 1 (flattenCharacters scenario_song ! 2)) = Inr e' \<and>
      currentIndex e' = currentIndex scenario_at_end)"
proof -
  have s: "startSync (AudioSyncEngine scenario_song) (example_tick 6) = Inr scenario_at_end"
    by (simp add: startSync_eq update_eq scan_target_def advance_notifications_def entered_def
      AudioSyncEngine_def scenario_characters example_tick_def guarded_duration_def
      notified_def deliveries_def scenario_at_end_def)
  have h: "handlers scenario_at_end ''verse-change'' = Some []"
    by (simp add: scenario_at_end_def AudioSyncEngine_def)
  have o: "\<exists>e'. on scenario_at_end ''verse-change'' 7 = Inr e'"
    by (simp add: on_def handlers_get_def h)
  have f: "\<exists>e'. off scenario_at_end ''verse-change'' 7 = Inr e'"
    by (simp add: off_def handlers_get_def h)
  have m: "\<exists>e'. emit scenario_at_end ''verse-change''
      (VerseData 1 (flattenCharacters scenario_song ! 2)) = Inr e'"
    by (simp add: emit_known)
  from s o f m
    cursor_forward_only [of "AudioSyncEngine scenario_song" "example_tick 6"]
    cursor_forward_only [of scenario_at_end "example_tick 6" "[example_tick 1, example_tick 0]"
      "''verse-change''" 7 "VerseData 1 (flattenCharacters scenario_song ! 2)"]
  show ?thesis
    by blast
qed

text \<open>
  Claim C7. \<^verbatim>\<open>startSync\<close> on an engine that is not running, with a non-empty
  sequence, in any reachable state, returns with the engine running, and the first
  notifications it emits are one \<^verbatim>\<open>'verse-change'\<close> and then one
  \<^verbatim>\<open>'character-change'\<close> for the unit at the cursor, before the first run of
  \<^verbatim>\<open>update\<close>; what follows is that run's \<^verbatim>\<open>'time-update'\<close> and the
  notifications for the units after the cursor that it reaches. Each notification is
  delivered, in this order, to every callback registered under its name. On an engine
  that is running \<^verbatim>\<open>startSync\<close> returns the state unchanged: nothing is emitted
  and no callback is invoked.
\<close>

theorem startSync_initial_notifications:
  "(reachable sd e \<and> \<not> isRunning e \<and> characters e \<noteq> [] \<longrightarrow>
      (\<exists>e' new. startSync e tk = Inr e' \<and> isRunning e' \<and>
         new =
           [(''verse-change'',
             VerseData (verseIdx (characters e ! currentIndex e)) (characters e ! currentIndex e)),
            (''character-change'', CharacterData (characters e ! currentIndex e))]
           @ (''time-update'',
              TimeData (audio_currentTime tk)
                (guarded_duration (audio_duration tk) (state_duration tk)))
             # advance_notifications (characters e) (currentIndex e) (currentIndex e') \<and>
         emitted e' = emitted e @ new \<and>
         handlers e' = handlers e \<and>
         delivered e' = delivered e @ deliveries (handlers e) new)) \<and>
   (isRunning e \<longrightarrow> startSync e tk = Inr e)"
  using reachable_in_range [of sd e] by (auto simp: startSync_eq update_eq)

theorem startSync_initial_notifications_witness:
  "reachable scenario_song scenario_observed \<and>
   \<not> isRunning scenario_observed \<and>
   characters scenario_observed \<noteq> [] \<and>
   (\<exists>e'. startSync scenario_observed (example_tick 1) = Inr e' \<and> isRunning e' \<and>
      emitted e' =
        [(''verse-change'', VerseData 0 (flattenCharacters scenario_song ! 0)),
         (''character-change'', CharacterData (flattenCharacters scenario_song ! 0)),
         (''time-update'', TimeData 1 258)] \<and>
      delivered e' =
        [(8, VerseData 0 (flattenCharacters scenario_song ! 0)),
         (7, CharacterData (flattenCharacters scenario_song ! 0)),
         (9, TimeData 1 258)]) \<and>
   isRunning scenario_observed_running \<and>
   startSync scenario_observed_running (example_tick 1) = Inr scenario_observed_running"
proof -
  have h0: "reachable scenario_song scenario_observed"
    by (rule scenario_observed_reachable)
  have h1: "\<not> isRunning scenario_observed"
    by (simp add: scenario_observed_fields)
  have h2: "characters scenario_observed \<noteq> []"
    by (simp add: scenario_observed_fields scenario_characters)
  have h3: "isRunning scenario_observed_running"
    by (simp add: scenario_observed_running_fields)
  have c: "\<And>e'. startSync scenario_observed (example_tick 1) = Inr e' \<Longrightarrow>
     currentIndex e' = 0"
    using h1 by (auto simp: startSync_eq update_eq scenario_observed_fields example_tick_def
        scan_target_def scenario_characters)
  have f: "audio_currentTime (example_tick 1) = 1"
      "guarded_duration (audio_duration (example_tick 1)) (state_duration (example_tick 1)) = 258"
    by (simp_all add: example_tick_def guarded_duration_def)
  from startSync_initial_notifications [of scenario_song scenario_observed "example_tick 1"]
    h0 h1 h2
  obtain e' new where e': "startSync scenario_observed (example_tick 1) = Inr e'"
      "isRunning e'"
    and new: "new =
           [(''verse-change'',
             VerseData (verseIdx (characters scenario_observed ! currentIndex scenario_observed))
               (characters scenario_observed ! currentIndex scenario_observed)),
            (''character-change'',
             CharacterData (characters scenario_observed ! currentIndex scenario_observed))]
           @ (''time-update'',
              TimeData (audio_currentTime (example_tick 1))
                (guarded_duration (audio_duration (example_tick 1))
                   (state_duration (example_tick 1))))
             # advance_notifications (characters scenario_observed)
                 (currentIndex scenario_observed) (currentIndex e')"
    and em: "emitted e' = emitted scenario_observed @ new"
    and dl: "delivered e' = delivered scenario_observed
               @ deliveries (handlers scenario_observed) new"
    by blast
  have new': "new =
        [(''verse-change'', VerseData 0 (flattenCharacters scenario_song ! 0)),
         (''character-change'', CharacterData (flattenCharacters scenario_song ! 0)),
         (''time-update'', TimeData 1 258)]"
    unfolding new c [OF e'(1)]
    by (simp add: f scenario_observed_fields scenario_characters)
  have "deliveries (handlers scenario_observed) new =
        [(8, VerseData 0 (flattenCharacters scenario_song ! 0)),
         (7, CharacterData (flattenCharacters scenario_song ! 0)),
         (9, TimeData 1 258)]"
    unfolding new'
    by (simp add: deliveries_def scenario_observed_fields)
  with e' em dl new' have "\<exists>e'. startSync scenario_observed (example_tick 1) = Inr e' \<and>
      isRunning e' \<and>
      emitted e' =
        [(''verse-change'', VerseData 0 (flattenCharacters scenario_song ! 0)),
         (''character-change'', CharacterData (flattenCharacters scenario_song ! 0)),
         (''time-update'', TimeData 1 258)] \<and>
      delivered e' =
        [(8, VerseData 0 (flattenCharacters scenario_song ! 0)),
         (7, CharacterData (flattenCharacters scenario_song ! 0)),
         (9, TimeData 1 258)]"
    by (simp add: scenario_observed_fields)
  moreover from startSync_initial_notifications
    [of scenario_song scenario_observed_running "example_tick 1"] h3
  have "startSync scenario_observed_running (example_tick 1) = Inr scenario_observed_running"
    by blast
  ultimately show ?thesis
    using h0 h1 h2 h3 by blast
qed

section \<open>The empty sequence\<close>

text \<open>
  Claim C8 says that on an empty sequence \<^verbatim>\<open>startSync\<close>, \<^verbatim>\<open>update\<close> and
  \<^verbatim>\<open>seekTo\<close> emit no notification of any kind. \<^verbatim>\<open>startSync\<close> runs
  \<^verbatim>\<open>update\<close>, which emits \<^verbatim>\<open>'time-update'\<close> before it looks at the sequence.
\<close>

theorem empty_start_emits_time_update_counterexample:
  "characters (AudioSyncEngine empty_song) = [] \<and>
   startSync (AudioSyncEngine empty_song) (example_tick 5) =
     Inr ((AudioSyncEngine empty_song)
            \<lparr>isRunning := True, syncLoop := Some 1,
              emitted := [(''time-update'', TimeData 5 258)]\<rparr>)"
  by (simp add: startSync_eq update_eq scan_target_def AudioSyncEngine_def flattenCharacters_def
      empty_song_def example_tick_def guarded_duration_def notified_def deliveries_def)

text \<open>
  Claim C8, amended. On an empty sequence \<^verbatim>\<open>startSync\<close>, \<^verbatim>\<open>update\<close> and
  \<^verbatim>\<open>seekTo\<close> return (nothing is thrown), emit no \<^verbatim>\<open>'verse-change'\<close> and no
  \<^verbatim>\<open>'character-change'\<close>, and leave the cursor where it is (\<^verbatim>\<open>seekTo\<close>: at 0).
  The only notification is the \<^verbatim>\<open>'time-update'\<close> of a run of \<^verbatim>\<open>update\<close> on a
  running engine, which \<^verbatim>\<open>startSync\<close> makes once when it starts the engine;
  \<^verbatim>\<open>seekTo\<close> emits and delivers nothing.
\<close>

theorem empty_sequence_only_time_updates:
  assumes "characters e = []"
  shows "(\<exists>e'. startSync e tk = Inr e' \<and>
            emitted e' = emitted e
              @ (if isRunning e then []
                 else [(''time-update'',
                        TimeData (audio_currentTime tk)
                          (guarded_duration (audio_duration tk) (state_duration tk)))]) \<and>
            currentIndex e' = currentIndex e) \<and>
         (\<exists>e'. update e tk = Inr e' \<and>
            emitted e' = emitted e
              @ (if isRunning e
                 then [(''time-update'',
                        TimeData (audio_currentTime tk)
                          (guarded_duration (audio_duration tk) (state_duration tk)))]
                 else []) \<and>
            currentIndex e' = currentIndex e) \<and>
         (\<exists>e'. seekTo e t = Inr e' \<and> emitted e' = emitted e \<and> delivered e' = delivered e \<and>
            currentIndex e' = 0)"
  using assms by (simp add: startSync_eq update_eq seekTo_eq scan_target_def)

theorem empty_sequence_only_time_updates_witness:
  "characters (AudioSyncEngine empty_song) = [] \<and>
   (\<exists>e'. startSync (AudioSyncEngine empty_song) (example_tick 5) = Inr e' \<and>
      emitted e' = emitted (AudioSyncEngine empty_song) @ [(''time-update'', TimeData 5 258)]) \<and>
   (\<exists>e'. update (AudioSyncEngine empty_song) (example_tick 5) = Inr e' \<and>
      emitted e' = emitted (AudioSyncEngine empty_song)) \<and>
   (\<exists>e'. seekTo (AudioSyncEngine empty_song) 3 = Inr e' \<and>
      emitted e' = emitted (AudioSyncEngine empty_song) \<and> currentIndex e' = 0)"
proof -
  have h: "characters (AudioSyncEngine empty_song) = []"
    by (simp add: AudioSyncEngine_def flattenCharacters_def empty_song_def)
  have r: "\<not> isRunning (AudioSyncEngine empty_song)"
    by (simp add: AudioSyncEngine_def)
  have d: "audio_currentTime (example_tick 5) = 5"
      "guarded_duration (audio_duration (example_tick 5)) (state_duration (example_tick 5)) = 258"
    by (simp_all add: example_tick_def guarded_duration_def)
  from empty_sequence_only_time_updates [OF h, of "example_tick 5" 3] h r show ?thesis
    by (auto simp: d)
qed

section \<open>The cursor stays in range\<close>

text \<open>
  Claim C9. On a non-empty sequence with the cursor in range (\<open>currentIndex < length\<close>),
  \<^verbatim>\<open>startSync\<close>, \<^verbatim>\<open>update\<close>, \<^verbatim>\<open>seekTo\<close> and \<^verbatim>\<open>reset\<close> return, keep the
  sequence and leave the cursor in range. When a run of \<^verbatim>\<open>update\<close> (also the one
  inside \<^verbatim>\<open>startSync\<close>) has moved the cursor, the unit at the cursor is due at the
  playback time; after \<^verbatim>\<open>seekTo(t)\<close> with \<open>t\<close> at or after the first unit's time,
  the unit at the cursor has \<open>time \<le> t\<close>.
\<close>

theorem cursor_bounds_preserved:
  assumes "currentIndex e < length (characters e)"
  shows "(\<exists>e'. startSync e tk = Inr e' \<and> characters e' = characters e \<and>
            currentIndex e' < length (characters e') \<and>
            (currentIndex e' \<noteq> currentIndex e \<longrightarrow>
               time (characters e' ! currentIndex e') \<le> audio_currentTime tk)) \<and>
         (\<exists>e'. update e tk = Inr e' \<and> characters e' = characters e \<and>
            currentIndex e' < length (characters e') \<and>
            (currentIndex e' \<noteq> currentIndex e \<longrightarrow>
               time (characters e' ! currentIndex e') \<le> audio_currentTime tk)) \<and>
         (\<exists>e'. seekTo e t = Inr e' \<and> characters e' = characters e \<and>
            currentIndex e' < length (characters e') \<and>
            (time (characters e ! 0) \<le> t \<longrightarrow> time (characters e' ! currentIndex e') \<le> t)) \<and>
         characters (reset e) = characters e \<and>
         currentIndex (reset e) < length (characters (reset e))"
proof -
  let ?cs = "characters e" and ?i = "currentIndex e" and ?t = "audio_currentTime tk"
  let ?k = "scan_target ?cs ?i ?t"
  have ne: "?cs \<noteq> []"
    using assms by auto
  have k: "?k < length ?cs"
    using assms by (rule scan_target_in_range)
  have due: "?k \<noteq> ?i \<longrightarrow> time (?cs ! ?k) \<le> ?t"
    using scan_target_ge [of ?i ?cs ?t] scan_target_due [of ?i ?k ?cs ?t] by auto
  have up: "\<exists>e'. update e1 tk = Inr e' \<and> characters e' = characters e \<and>
            currentIndex e' < length (characters e') \<and>
            (currentIndex e' \<noteq> currentIndex e \<longrightarrow>
               time (characters e' ! currentIndex e') \<le> ?t)"
    if "characters e1 = ?cs" and "currentIndex e1 = ?i" for e1
    using that k due assms by (simp add: update_eq)
  have st: "\<exists>e'. startSync e tk = Inr e' \<and> characters e' = characters e \<and>
            currentIndex e' < length (characters e') \<and>
            (currentIndex e' \<noteq> currentIndex e \<longrightarrow>
               time (characters e' ! currentIndex e') \<le> ?t)"
  proof (cases "isRunning e")
    case True
    with assms show ?thesis by (simp add: startSync_eq)
  next
    case False
    with assms ne have "startSync e tk =
        update
          (notified (e\<lparr>isRunning := True\<rparr>)
             [(''verse-change'', VerseData (verseIdx (?cs ! ?i)) (?cs ! ?i)),
              (''character-change'', CharacterData (?cs ! ?i))])
          tk"
      by (simp add: startSync_eq)
    then show ?thesis
      using up [of "notified (e\<lparr>isRunning := True\<rparr>)
             [(''verse-change'', VerseData (verseIdx (?cs ! ?i)) (?cs ! ?i)),
              (''character-change'', CharacterData (?cs ! ?i))]"]
      by simp
  qed
  have sk: "\<exists>e'. seekTo e t = Inr e' \<and> characters e' = characters e \<and>
            currentIndex e' < length (characters e') \<and>
            (time (characters e ! 0) \<le> t \<longrightarrow> time (characters e' ! currentIndex e') \<le> t)"
    using seek_scan_in_range [OF ne, of t] seek_scan_due [OF ne, of t]
    by (simp add: seekTo_eq)
  have rs: "characters (reset e) = characters e \<and>
         currentIndex (reset e) < length (characters (reset e))"
    using ne by (simp add: reset_def)
  from st up [of e] sk rs show ?thesis
    by blast
qed

theorem cursor_bounds_preserved_witness:
  "currentIndex scenario_running < length (characters scenario_running) \<and>
   (\<exists>e'. update scenario_running (example_tick 3) = Inr e' \<and>
      currentIndex e' = 1 \<and>
      currentIndex e' < length (characters e') \<and>
      time (characters e' ! currentIndex e') \<le> audio_currentTime (example_tick 3)) \<and>
   time (characters scenario_running ! 0) \<le> 4 \<and>
   (\<exists>e'. seekTo scenario_running 4 = Inr e' \<and>
      currentIndex e' < length (characters e') \<and>
      time (characters e' ! currentIndex e') \<le> 4)"
proof -
  have h: "currentIndex scenario_running < length (characters scenario_running)"
    by (simp add: scenario_running_fields scenario_characters)
  have a: "time (characters scenario_running ! 0) \<le> 4"
    by (simp add: scenario_running_fields scenario_characters)
  have moved: "\<And>e'. update scenario_running (example_tick 3) = Inr e' \<Longrightarrow> currentIndex e' = 1"
    by (auto simp: update_eq scenario_running_fields scan_target_def scenario_characters
        example_tick_def)
  have z: "currentIndex scenario_running = 0"
    by (simp add: scenario_running_fields)
  from cursor_bounds_preserved [OF h, of "example_tick 3" 4] h a moved z show ?thesis
    by (metis zero_neq_one)
qed

section \<open>Verse notifications\<close>




section \<open>The handler registry\<close>

text \<open>
  Claim C10 says that registering or emitting under an event name other than the three
  kinds is a silent no-op that never throws. The guard \<^verbatim>\<open>if (this.handlers[event])\<close>
  is also passed by the names that the plain object \<open>handlers\<close> inherits from
  \<^verbatim>\<open>Object.prototype\<close>, and the value found there has no \<^verbatim>\<open>add\<close>,
  \<^verbatim>\<open>delete\<close> or \<^verbatim>\<open>forEach\<close>: \<^verbatim>\<open>on\<close>, \<^verbatim>\<open>off\<close> and \<^verbatim>\<open>emit\<close> throw a
  \<^verbatim>\<open>TypeError\<close> under such a name.
\<close>

theorem inherited_event_name_throws:
  "on (AudioSyncEngine scenario_song) ''constructor'' 7 = Inl TypeError \<and>
   off (AudioSyncEngine scenario_song) ''toString'' 7 = Inl TypeError \<and>
   emit (AudioSyncEngine scenario_song) ''__proto__'' (TimeData 0 0) = Inl TypeError"
  by (simp add: on_def off_def emit_def handlers_get_def AudioSyncEngine_def
      object_prototype_keys_def)

text \<open>
  What holds of the registry in every reachable state: under one of the three event
  kinds a second \<^verbatim>\<open>on\<close> with the same callback changes nothing, an \<^verbatim>\<open>emit\<close>
  then invokes the callback once, and one \<^verbatim>\<open>off\<close> removes it; a name that is
  neither one of the three kinds nor inherited is ignored by \<^verbatim>\<open>on\<close>, \<^verbatim>\<open>off\<close>
  and \<^verbatim>\<open>emit\<close>.
\<close>

lemma on_twice:
  assumes "on e event callback = Inr e1"
  shows "on e1 event callback = Inr e1"
proof (cases "handlers_get (handlers e) event")
  case Undefined
  with assms show ?thesis by (simp add: on_def)
next
  case (SetObject s)
  with assms have e1: "e1 = e\<lparr>handlers := (handlers e)(event \<mapsto> set_add s callback)\<rparr>"
    by (simp add: on_def)
  have "set_add (set_add s callback) callback = set_add s callback"
    by (simp add: set_add_def)
  then show ?thesis
    by (simp add: e1 on_def handlers_get_def)
next
  case Inherited
  with assms show ?thesis by (simp add: on_def)
qed

lemma unknown_event_no_op:
  assumes "handlers e event = None" and "event \<notin> set object_prototype_keys"
  shows "on e event callback = Inr e \<and> off e event callback = Inr e \<and>
         (\<exists>e'. emit e event data = Inr e' \<and> delivered e' = delivered e \<and>
            handlers e' = handlers e)"
  using assms by (simp add: on_def off_def emit_def handlers_get_def)

lemma count_set_add:
  "distinct s \<Longrightarrow> count_list (map (\<lambda>cb. (cb, data)) (set_add s callback)) (callback, data) = 1"
  by (induction s) (auto simp: set_add_def split: if_splits)

lemma registration_idempotent:
  assumes "reachable sd e"
    and "event \<in> {''character-change'', ''verse-change'', ''time-update''}"
  shows "\<exists>e1. on e event callback = Inr e1 \<and> on e1 event callback = Inr e1 \<and>
           (\<exists>e2 calls. emit e1 event data = Inr e2 \<and> delivered e2 = delivered e1 @ calls \<and>
              count_list calls (callback, data) = 1) \<and>
           (\<exists>e3. off e1 event callback = Inr e3 \<and>
              (\<exists>e4 calls. emit e3 event data = Inr e4 \<and> delivered e4 = delivered e3 @ calls \<and>
                 callback \<notin> fst ` set calls))"
proof -
  have ok: "handlers_ok (handlers e)"
    using assms(1) by (rule reachable_handlers)
  with assms(2) have "event \<in> dom (handlers e)"
    by (simp add: handlers_ok_def)
  then obtain s where s: "handlers e event = Some s"
    by auto
  then have "s \<in> ran (handlers e)" by (auto simp: ran_def)
  with ok have d: "distinct s" by (simp add: handlers_ok_def)
  let ?e1 = "e\<lparr>handlers := (handlers e)(event \<mapsto> set_add s callback)\<rparr>"
  let ?e3 = "?e1\<lparr>handlers := (handlers ?e1)(event \<mapsto> set_delete (set_add s callback) callback)\<rparr>"
  have on1: "on e event callback = Inr ?e1"
    using s by (simp add: on_def handlers_get_def)
  then have on2: "on ?e1 event callback = Inr ?e1"
    by (rule on_twice)
  have em1: "\<exists>e2 calls. emit ?e1 event data = Inr e2 \<and> delivered e2 = delivered ?e1 @ calls \<and>
              count_list calls (callback, data) = 1"
    using count_set_add [OF d, of data callback]
    by (simp add: emit_def handlers_get_def)
  have off1: "off ?e1 event callback = Inr ?e3"
    by (simp add: off_def handlers_get_def)
  have "callback \<notin> fst ` set (map (\<lambda>cb. (cb, data)) (set_delete (set_add s callback) callback))"
    by (auto simp: set_delete_def)
  then have em3: "\<exists>e4 calls. emit ?e3 event data = Inr e4 \<and> delivered e4 = delivered ?e3 @ calls \<and>
                 callback \<notin> fst ` set calls"
    by (simp add: emit_def handlers_get_def)
  from on1 on2 em1 off1 em3 show ?thesis
    by (simp only: sum.inject) blast
qed

lemma unknown_event_ignored:
  assumes "reachable sd e"
    and "event \<notin> {''character-change'', ''verse-change'', ''time-update''}"
    and "event \<notin> set object_prototype_keys"
  shows "on e event callback = Inr e \<and> off e event callback = Inr e \<and>
         (\<exists>e'. emit e event data = Inr e' \<and> delivered e' = delivered e \<and>
            handlers e' = handlers e)"
proof -
  have "handlers_ok (handlers e)"
    using assms(1) by (rule reachable_handlers)
  with assms(2) have "event \<notin> dom (handlers e)"
    by (simp add: handlers_ok_def)
  then have "handlers e event = None" by auto
  then show ?thesis
    using assms(3) by (rule unknown_event_no_op)
qed

end
